theory Spec2Isabelle
  imports Main "HOL-Library.Word" "HOL-Library.List_Lexorder" "HOL-Library.Char_ord"
begin

section \<open>Numbers, bytes and errors\<close>

text \<open>
  The ledger core of lisk-js: \<^verbatim>\<open>packages/lisk-transactions/src/base_transaction.ts\<close>
  (the life cycle of one transaction) and \<^verbatim>\<open>packages/lisk-blockchain/src/vote.ts\<close>
  (the vote-weight effects of a transaction on the delegates).

  Every \<^verbatim>\<open>throw\<close> and every rejected promise of the code is a value of \<open>error\<close>;
  \<open>NotWhole\<close> is no exception of the code, it marks where the model of the numbers ends.
\<close>

datatype error = MalformedNumber | NotWhole | NegativeNumber | RangeError | TypeError | NotFound

type_synonym byte = "8 word"

text \<open>
  \<^verbatim>\<open>browserify-bignum\<close> is a third-party library (bignumber.js behind another name). Its
  numbers are modelled as the integers they stand for in this code: balances, fees, amounts
  and vote weights are whole numbers of the smallest unit.

  The constructor reads a string the way the library does. A literal is an optional minus
  sign, digits with an optional decimal point (\<^verbatim>\<open>12\<close>, \<^verbatim>\<open>12.\<close>, \<^verbatim>\<open>12.50\<close>, \<^verbatim>\<open>.5\<close>) and an
  optional exponent (\<^verbatim>\<open>e\<close> or \<^verbatim>\<open>E\<close>, an optional sign, digits). A string that is not a
  literal is read again without the blanks around it and without one leading plus sign, and
  then an optional minus sign and digits, with or without a fraction, are accepted.
  Anything else is \<open>MalformedNumber\<close>, the library's exception. A string the library
  reads as a number that is not whole (a fraction, \<^verbatim>\<open>Infinity\<close>, \<^verbatim>\<open>NaN\<close>) is \<open>NotWhole\<close>:
  the library goes on computing with that number, and the model, whose numbers are
  integers, ends there.

  \<^verbatim>\<open>toString()\<close> prints a whole number with all its digits up to 21 of them and in
  exponential notation from \<open>10\<^sup>2\<^sup>1\<close> on: the first digit, the remaining digits
  without the zeros at the end after a point, \<^verbatim>\<open>e+\<close> and the exponent.

  The library holds finite numbers up to the exponent \<^verbatim>\<open>MAX_EXP\<close> and makes \<^verbatim>\<open>Infinity\<close> of
  what lies beyond. The integers of the model have no such limit; \<open>withinRange\<close> marks
  those so far below it that the sum and the difference of two of them are finite in the
  library too.
\<close>

type_synonym BigNum = int

definition digitValue :: "char \<Rightarrow> nat option" where
  "digitValue c =
     (let n = (of_char c :: nat) in if 48 \<le> n \<and> n \<le> 57 then Some (n - 48) else None)"

fun parseDigits :: "nat \<Rightarrow> string \<Rightarrow> nat option" where
  "parseDigits acc [] = Some acc"
| "parseDigits acc (c # cs) =
     (case digitValue c of None \<Rightarrow> None | Some d \<Rightarrow> parseDigits (10 * acc + d) cs)"

definition isBlank :: "char \<Rightarrow> bool" where
  "isBlank c = ((of_char c :: nat) \<in> {9, 10, 11, 12, 13, 32})"

definition trim :: "string \<Rightarrow> string" where
  "trim s = rev (dropWhile isBlank (rev (dropWhile isBlank s)))"

definition stripPlus :: "string \<Rightarrow> string" where
  "stripPlus s =
     (case s of
        [] \<Rightarrow> []
      | c # cs \<Rightarrow> if c = CHR ''+'' \<and> take 1 cs \<noteq> [CHR ''-''] then cs else s)"

definition notPoint :: "char \<Rightarrow> bool" where
  "notPoint c = (c \<noteq> CHR ''.'')"

definition notExponent :: "char \<Rightarrow> bool" where
  "notExponent c = (c \<noteq> CHR ''e'' \<and> c \<noteq> CHR ''E'')"

text \<open>The digits before and after the point: their value as one numeral, and how many
  of them stand after the point.\<close>

definition mantissa :: "string \<Rightarrow> (nat \<times> nat) option" where
  "mantissa m =
     (let whole = takeWhile notPoint m;
          fraction = drop 1 (dropWhile notPoint m)
      in if whole = [] \<and> fraction = [] then None
         else map_option (\<lambda>v. (v, length fraction)) (parseDigits 0 (whole @ fraction)))"

definition exponentPart :: "string \<Rightarrow> int option" where
  "exponentPart x =
     (case x of
        [] \<Rightarrow> None
      | c # cs \<Rightarrow>
          if c = CHR ''+'' then (if cs = [] then None else map_option int (parseDigits 0 cs))
          else if c = CHR ''-'' then
            (if cs = [] then None else map_option (\<lambda>n. - int n) (parseDigits 0 cs))
          else map_option int (parseDigits 0 x))"

text \<open>An unsigned literal as a pair \<open>(v, k)\<close> that stands for \<open>v \<times> 10\<^sup>k\<close>.\<close>

definition decimalLiteral :: "string \<Rightarrow> (nat \<times> int) option" where
  "decimalLiteral s =
     (case mantissa (takeWhile notExponent s) of
        None \<Rightarrow> None
      | Some (v, k) \<Rightarrow>
          (case dropWhile notExponent s of
             [] \<Rightarrow> Some (v, - int k)
           | e # x \<Rightarrow> map_option (\<lambda>n. (v, n - int k)) (exponentPart x)))"

definition wholeNumber :: "nat \<Rightarrow> int \<Rightarrow> nat option" where
  "wholeNumber v k =
     (if 0 \<le> k then Some (v * 10 ^ nat k)
      else if v mod 10 ^ nat (- k) = 0 then Some (v div 10 ^ nat (- k))
      else None)"

text \<open>The second reading: digits, and a fraction only with digits on both sides of the point.\<close>

definition plainLiteral :: "string \<Rightarrow> (nat \<times> int) option" where
  "plainLiteral m =
     (let whole = takeWhile notPoint m;
          rest = dropWhile notPoint m;
          fraction = drop 1 rest
      in if whole = [] \<or> (rest \<noteq> [] \<and> fraction = []) then None
         else map_option (\<lambda>v. (v, - int (length fraction))) (parseDigits 0 (whole @ fraction)))"

definition signedLiteral ::
  "(string \<Rightarrow> (nat \<times> int) option) \<Rightarrow> string \<Rightarrow> (bool \<times> nat \<times> int) option" where
  "signedLiteral body s =
     (case s of
        [] \<Rightarrow> None
      | c # cs \<Rightarrow>
          if c = CHR ''-'' then map_option (Pair True) (body cs)
          else map_option (Pair False) (body s))"

definition readLiteral :: "string \<Rightarrow> (bool \<times> nat \<times> int) option" where
  "readLiteral s =
     (case signedLiteral decimalLiteral s of
        Some r \<Rightarrow> Some r
      | None \<Rightarrow> signedLiteral plainLiteral (stripPlus (trim s)))"

definition nonFinite :: "string \<Rightarrow> bool" where
  "nonFinite s =
     (let t = stripPlus (trim s);
          body = (if take 1 t = [CHR ''-''] then drop 1 t else t)
      in body = ''Infinity'' \<or> body = ''NaN'')"

definition BigNum_new :: "string \<Rightarrow> error + BigNum" where
  "BigNum_new s =
     (case readLiteral s of
        None \<Rightarrow> if nonFinite s then Inl NotWhole else Inl MalformedNumber
      | Some (negative, v, k) \<Rightarrow>
          (case wholeNumber v k of
             None \<Rightarrow> Inl NotWhole
           | Some n \<Rightarrow> Inr (if negative then - int n else int n)))"

definition digitChar :: "nat \<Rightarrow> char" where
  "digitChar d = char_of (48 + d)"

function digitsOf :: "nat \<Rightarrow> string" where
  "digitsOf n = (if n < 10 then [digitChar n] else digitsOf (n div 10) @ [digitChar (n mod 10)])"
  by pat_completeness auto
termination
  by (relation "measure (\<lambda>n. n)") auto

declare digitsOf.simps [simp del]

text \<open>\<^verbatim>\<open>TO_EXP_POS\<close>, the library's setting: the exponent from which \<^verbatim>\<open>toString()\<close>
  prints exponential notation.\<close>

definition TO_EXP_POS :: nat where
  "TO_EXP_POS = 21"

definition stripZeros :: "string \<Rightarrow> string" where
  "stripZeros ds = rev (dropWhile (\<lambda>c. c = CHR ''0'') (rev ds))"

definition exponentialForm :: "string \<Rightarrow> string" where
  "exponentialForm ds =
     (case stripZeros ds of
        [] \<Rightarrow> ds
      | x # xs \<Rightarrow>
          x # (if xs = [] then [] else CHR ''.'' # xs) @ ''e+'' @ digitsOf (length ds - 1))"

definition magnitudeString :: "nat \<Rightarrow> string" where
  "magnitudeString n =
     (let ds = digitsOf n
      in if length ds - 1 < TO_EXP_POS then ds else exponentialForm ds)"

definition BigNum_toString :: "BigNum \<Rightarrow> string" where
  "BigNum_toString n =
     (if n < 0 then CHR ''-'' # magnitudeString (nat (- n)) else magnitudeString (nat n))"

definition MAX_EXP :: nat where
  "MAX_EXP = 1000000000"

definition withinRange :: "BigNum \<Rightarrow> bool" where
  "withinRange n = (\<bar>n\<bar> < 10 ^ MAX_EXP)"

text \<open>A balance string is canonical when it is what \<^verbatim>\<open>toString()\<close> prints for its value,
  a whole number within the range.\<close>

definition canonicalDecimal :: "string \<Rightarrow> bool" where
  "canonicalDecimal s =
     (case BigNum_new s of
        Inl e \<Rightarrow> False
      | Inr n \<Rightarrow> BigNum_toString n = s \<and> withinRange n)"

text \<open>
  \<^verbatim>\<open>BigNum.toBuffer({ endian, size })\<close>: the magnitude is cut into words of \<open>size\<close> bytes
  (at least one word, the most significant word first), and \<open>endian\<close> orders the bytes
  inside each word. A negative number is refused.
\<close>

datatype endian = Big | Little

fun leBytes :: "nat \<Rightarrow> nat \<Rightarrow> byte list" where
  "leBytes 0 v = []"
| "leBytes (Suc k) v = of_nat (v mod 256) # leBytes k (v div 256)"

function toWords :: "nat \<Rightarrow> nat \<Rightarrow> nat list" where
  "toWords sz v =
     (if sz = 0 \<or> v < 256 ^ sz then [v]
      else toWords sz (v div 256 ^ sz) @ [v mod 256 ^ sz])"
  by pat_completeness auto
termination
proof (relation "measure (\<lambda>(sz, v). v)")
  show "wf (measure (\<lambda>(sz, v). v))" by simp
next
  fix sz v :: nat
  assume a: "\<not> (sz = 0 \<or> v < 256 ^ sz)"
  then have "0 < v"
    by (cases "v = 0") auto
  moreover have "(1::nat) < 256 ^ sz"
    using a one_less_power [of "256::nat" sz] by simp
  ultimately have "v div 256 ^ sz < v"
    by (rule div_less_dividend [rotated])
  then show "((sz, v div 256 ^ sz), (sz, v)) \<in> measure (\<lambda>(sz, v). v)"
    by simp
qed

definition wordBytes :: "endian \<Rightarrow> nat \<Rightarrow> nat \<Rightarrow> byte list" where
  "wordBytes e sz w = (case e of Little \<Rightarrow> leBytes sz w | Big \<Rightarrow> rev (leBytes sz w))"

definition BigNum_toBuffer :: "endian \<Rightarrow> nat \<Rightarrow> BigNum \<Rightarrow> error + byte list" where
  "BigNum_toBuffer e sz n =
     (if n < 0 then Inl NegativeNumber
      else
        (let wsz = (if sz = 0 then 1 else sz)
         in Inr (concat (map (wordBytes e wsz) (toWords wsz (nat n))))))"

text \<open>The number a byte sequence stands for, least significant byte first.\<close>

fun leValue :: "byte list \<Rightarrow> nat" where
  "leValue [] = 0"
| "leValue (b # bs) = unat b + 256 * leValue bs"

text \<open>Node's \<^verbatim>\<open>Buffer.alloc(n, fill)\<close> and \<^verbatim>\<open>buf.writeIntLE(value, 0, n)\<close> on a fresh buffer
  of \<open>n\<close> bytes: the value in two's complement, or a \<open>RangeError\<close> outside the signed range.\<close>

definition Buffer_alloc :: "nat \<Rightarrow> byte \<Rightarrow> byte list" where
  "Buffer_alloc n fill = replicate n fill"

definition writeIntLE :: "int \<Rightarrow> nat \<Rightarrow> error + byte list" where
  "writeIntLE v n =
     (if - (2 ^ (8 * n - 1)) \<le> v \<and> v < 2 ^ (8 * n - 1)
      then Inr (leBytes n (nat (v mod 2 ^ (8 * n))))
      else Inl RangeError)"

text \<open>
  Modelled from the spec: \<^verbatim>\<open>hexToBuffer\<close> and \<^verbatim>\<open>bigNumberToBuffer\<close> of
  \<^verbatim>\<open>@liskhq/lisk-cryptography\<close> are not among the sources. \<open>hexToBuffer\<close> gives the raw
  bytes a hexadecimal string writes, two digits a byte, and refuses any other string;
  \<open>bigNumberToBuffer\<close> gives the number a decimal string writes as a buffer of words of
  \<open>size\<close> bytes. The byte order of its words is not fixed by the sources, so it is a
  parameter of the model.
\<close>

definition hexDigit :: "char \<Rightarrow> nat option" where
  "hexDigit c =
     (let n = (of_char c :: nat)
      in if 48 \<le> n \<and> n \<le> 57 then Some (n - 48)
         else if 97 \<le> n \<and> n \<le> 102 then Some (n - 87)
         else if 65 \<le> n \<and> n \<le> 70 then Some (n - 55)
         else None)"

fun hexPairs :: "string \<Rightarrow> byte list option" where
  "hexPairs [] = Some []"
| "hexPairs [c] = None"
| "hexPairs (a # b # cs) =
     (case hexDigit a of
        None \<Rightarrow> None
      | Some x \<Rightarrow>
          (case hexDigit b of
             None \<Rightarrow> None
           | Some y \<Rightarrow>
               (case hexPairs cs of
                  None \<Rightarrow> None
                | Some r \<Rightarrow> Some (of_nat (16 * x + y) # r))))"

definition hexToBuffer :: "string \<Rightarrow> error + byte list" where
  "hexToBuffer hex = (case hexPairs hex of None \<Rightarrow> Inl TypeError | Some bs \<Rightarrow> Inr bs)"

definition bigNumberToBuffer :: "endian \<Rightarrow> string \<Rightarrow> nat \<Rightarrow> error + byte list" where
  "bigNumberToBuffer e bignumber sz =
     (case BigNum_new bignumber of Inl err \<Rightarrow> Inl err | Inr n \<Rightarrow> BigNum_toBuffer e sz n)"

text \<open>\<^verbatim>\<open>BYTESIZES\<close> of \<^verbatim>\<open>constants.ts\<close> (not among the sources): the widths of the signable
  layout, section 6 of the specification.\<close>

definition BYTESIZES_TYPE :: nat where "BYTESIZES_TYPE = 1"
definition BYTESIZES_TIMESTAMP :: nat where "BYTESIZES_TIMESTAMP = 4"
definition BYTESIZES_RECIPIENT_ID :: nat where "BYTESIZES_RECIPIENT_ID = 8"
definition BYTESIZES_AMOUNT :: nat where "BYTESIZES_AMOUNT = 8"

text \<open>A JavaScript string in a condition: absent and empty are both false.\<close>

definition truthy :: "string option \<Rightarrow> bool" where
  "truthy s = (case s of None \<Rightarrow> False | Some t \<Rightarrow> t \<noteq> [])"

text \<open>A JavaScript value inside a template literal: an absent one prints as \<^verbatim>\<open>undefined\<close>.\<close>

definition templateString :: "string option \<Rightarrow> string" where
  "templateString s = (case s of None \<Rightarrow> ''undefined'' | Some t \<Rightarrow> t)"

section \<open>Accounts and the transaction life cycle (base\_transaction.ts)\<close>

text \<open>
  \<^verbatim>\<open>Account\<close> is declared in files that are not among the sources; the record has the
  fields the two source files read and write (section 3 of the specification lists the
  same ones). Balances and vote weights are decimal strings.
\<close>

record Account =
  address :: string
  publicKey :: "string option"
  secondPublicKey :: "string option"
  balance :: string
  votes :: "string option"
  votedDelegatesPublicKeys :: "string list option"

record 'a TransactionJSON =
  id :: string
  amount :: string
  type :: int
  timestamp :: int
  senderPublicKey :: string
  senderId :: string
  recipientId :: "string option"
  recipientPublicKey :: "string option"
  fee :: string
  signatures :: "string list"
  asset :: 'a
  signature :: "string option"
  signSignature :: "string option"

text \<open>The class \<^verbatim>\<open>BaseTransaction\<close>: its public fields and the private flag \<open>applied\<close>.\<close>

record 'a BaseTransaction =
  amount :: BigNum
  fee :: BigNum
  id :: string
  recipientId :: "string option"
  recipientPublicKey :: "string option"
  senderId :: string
  senderPublicKey :: string
  signature :: "string option"
  signatures :: "string list"
  signSignature :: "string option"
  timestamp :: int
  type :: int
  asset :: 'a
  applied :: bool

record StateReturn =
  sender :: Account

definition toJSON :: "'a BaseTransaction \<Rightarrow> 'a TransactionJSON" where
  "toJSON this =
     (let transaction =
            \<lparr> TransactionJSON.id = BaseTransaction.id this,
              amount = BigNum_toString (BaseTransaction.amount this),
              type = BaseTransaction.type this,
              timestamp = BaseTransaction.timestamp this,
              senderPublicKey = BaseTransaction.senderPublicKey this,
              senderId = BaseTransaction.senderId this,
              recipientId = BaseTransaction.recipientId this,
              recipientPublicKey = BaseTransaction.recipientPublicKey this,
              fee = BigNum_toString (BaseTransaction.fee this),
              signatures = BaseTransaction.signatures this,
              asset = BaseTransaction.asset this,
              signature = None,
              signSignature = None \<rparr>
      in if \<not> truthy (BaseTransaction.signature this) then transaction
         else
           (let singleSignedTransaction =
                  transaction\<lparr>TransactionJSON.signature := BaseTransaction.signature this\<rparr>
            in if \<not> truthy (BaseTransaction.signSignature this) then singleSignedTransaction
               else singleSignedTransaction
                      \<lparr>TransactionJSON.signSignature := BaseTransaction.signSignature this\<rparr>))"

text \<open>\<^verbatim>\<open>getBytes\<close>. The first argument is the byte order of \<open>bigNumberToBuffer\<close>.\<close>

definition getBytes :: "endian \<Rightarrow> 'a BaseTransaction \<Rightarrow> error + byte list" where
  "getBytes e this =
     (let json = toJSON this;
          transactionType = Buffer_alloc BYTESIZES_TYPE (word_of_int (BaseTransaction.type this))
      in case writeIntLE (BaseTransaction.timestamp this) BYTESIZES_TIMESTAMP of
           Inl err \<Rightarrow> Inl err
         | Inr transactionTimestamp \<Rightarrow>
        (case hexToBuffer (BaseTransaction.senderPublicKey this) of
           Inl err \<Rightarrow> Inl err
         | Inr transactionSenderPublicKey \<Rightarrow>
        (case (if truthy (BaseTransaction.recipientId this)
               then bigNumberToBuffer e
                      (butlast (the (BaseTransaction.recipientId this))) BYTESIZES_RECIPIENT_ID
               else Inr (Buffer_alloc BYTESIZES_RECIPIENT_ID 0)) of
           Inl err \<Rightarrow> Inl err
         | Inr transactionRecipientID \<Rightarrow>
        (case BigNum_toBuffer Little BYTESIZES_AMOUNT (BaseTransaction.amount this) of
           Inl err \<Rightarrow> Inl err
         | Inr transactionAmount \<Rightarrow>
        (case (if truthy (TransactionJSON.signature json)
               then hexToBuffer (the (TransactionJSON.signature json))
               else Inr (Buffer_alloc 0 0)) of
           Inl err \<Rightarrow> Inl err
         | Inr transactionSignature \<Rightarrow>
        (case (if truthy (TransactionJSON.signSignature json)
               then hexToBuffer (the (TransactionJSON.signSignature json))
               else Inr (Buffer_alloc 0 0)) of
           Inl err \<Rightarrow> Inl err
         | Inr transactionSecondSignature \<Rightarrow>
             Inr (concat
                   [transactionType,
                    transactionTimestamp,
                    transactionSenderPublicKey,
                    transactionRecipientID,
                    transactionAmount,
                    transactionSignature,
                    transactionSecondSignature])))))))"

text \<open>
  \<^verbatim>\<open>validate\<close>. The recognised types (\<^verbatim>\<open>TRANSACTION_TYPES\<close>), the schema validator
  (\<^verbatim>\<open>validateTransaction\<close>, which reports \<open>valid\<close> and, when there are any, its errors)
  and the signature check (\<^verbatim>\<open>verifyTransaction\<close>) live in files that are not among the
  sources: they are parameters. \<^verbatim>\<open>validate\<close> calls both functions outside any
  \<^verbatim>\<open>try\<close>, so what either of them throws is thrown by \<^verbatim>\<open>validate\<close>: both may
  return an exception (a value of any type \<open>'e\<close>) in place of their result, and so may
  \<^verbatim>\<open>validate\<close>.
\<close>

record ErrorObject =
  dataPath :: string
  message :: string

datatype TransactionError = TransactionError string "string option"

record ValidateReturn =
  validated :: bool
  errors :: "TransactionError list option"

definition schemaError :: "ErrorObject \<Rightarrow> TransactionError" where
  "schemaError err =
     TransactionError
       ([CHR 0x27] @ dataPath err @ [CHR 0x27] @ '' '' @ message err)
       (Some (dataPath err))"

definition validate ::
  "int list \<Rightarrow> ('a TransactionJSON \<Rightarrow> 'e + bool \<times> ErrorObject list option) \<Rightarrow>
   ('a TransactionJSON \<Rightarrow> 'e + bool) \<Rightarrow> 'a BaseTransaction \<Rightarrow> 'e + ValidateReturn" where
  "validate TRANSACTION_TYPES validateTransaction verifyTransaction this =
     (let transaction = toJSON this
      in if \<not> (TransactionJSON.type transaction \<in> set TRANSACTION_TYPES) then
           Inr \<lparr> validated = False,
                 errors = Some [TransactionError ''Invalid transaction type.'' None] \<rparr>
         else
           (case validateTransaction transaction of
              Inl err \<Rightarrow> Inl err
            | Inr (valid, schemaErrors) \<Rightarrow>
                (let transactionErrors = map_option (map schemaError) schemaErrors
                 in if \<not> truthy (TransactionJSON.signature transaction) then
                      Inr \<lparr> validated = False,
                            errors =
                              Some [TransactionError
                                      ''Cannot validate transaction without signature.'' None] \<rparr>
                    else
                      (case verifyTransaction transaction of
                         Inl err \<Rightarrow> Inl err
                       | Inr verified \<Rightarrow>
                           Inr \<lparr> validated = (valid \<and> verified),
                                 errors = transactionErrors \<rparr>))))"

text \<open>
  \<^verbatim>\<open>apply\<close> and \<^verbatim>\<open>undo\<close>. Both read the flag \<open>applied\<close> of the transaction and
  \<^verbatim>\<open>apply\<close> writes it, so each returns the transaction next to its result; a balance
  the number constructor refuses leaves the call at the exception, before any write. (A
  balance that is not a whole number is where the model ends, see \<open>NotWhole\<close>.)
\<close>

definition apply_tx ::
  "'a BaseTransaction \<Rightarrow> Account \<Rightarrow> error + (StateReturn \<times> 'a BaseTransaction)" where
  "apply_tx this senderAccount =
     (if applied this then Inr (\<lparr> sender = senderAccount \<rparr>, this)
      else
        (case BigNum_new (balance senderAccount) of
           Inl err \<Rightarrow> Inl err
         | Inr b \<Rightarrow>
             (let updatedBalance = b - BaseTransaction.fee this;
                  updatedAccount = senderAccount\<lparr>balance := BigNum_toString updatedBalance\<rparr>
              in Inr (\<lparr> sender = updatedAccount \<rparr>, this\<lparr>applied := True\<rparr>))))"

definition undo ::
  "'a BaseTransaction \<Rightarrow> Account \<Rightarrow> error + (StateReturn \<times> 'a BaseTransaction)" where
  "undo this senderAccount =
     (if \<not> applied this then Inr (\<lparr> sender = senderAccount \<rparr>, this)
      else
        (case BigNum_new (balance senderAccount) of
           Inl err \<Rightarrow> Inl err
         | Inr b \<Rightarrow>
             (let updatedBalance = b + BaseTransaction.fee this;
                  updatedAccount = senderAccount\<lparr>balance := BigNum_toString updatedBalance\<rparr>
              in Inr (\<lparr> sender = updatedAccount \<rparr>, this))))"

text \<open>A sequence of calls on one transaction object, each with the account it is given.\<close>

datatype call = Apply Account | Undo Account

fun perform :: "call \<Rightarrow> 'a BaseTransaction \<Rightarrow> 'a BaseTransaction" where
  "perform (Apply a) this = (case apply_tx this a of Inl err \<Rightarrow> this | Inr (r, this') \<Rightarrow> this')"
| "perform (Undo a) this = (case undo this a of Inl err \<Rightarrow> this | Inr (r, this') \<Rightarrow> this')"

definition performAll :: "call list \<Rightarrow> 'a BaseTransaction \<Rightarrow> 'a BaseTransaction" where
  "performAll calls this = fold perform calls this"

section \<open>The vote ledger (vote.ts)\<close>

text \<open>
  The transaction types of \<^verbatim>\<open>constants.ts\<close> (not among the sources) with the numbers of
  the protocol; the tests of the repository create an in-transfer as type 6.
\<close>

definition TRANSACTION_TYPE_TRANSFER :: int where "TRANSACTION_TYPE_TRANSFER = 0"
definition TRANSACTION_TYPE_VOTE :: int where "TRANSACTION_TYPE_VOTE = 3"
definition TRANSACTION_TYPE_IN_TRANSFER :: int where "TRANSACTION_TYPE_IN_TRANSFER = 6"
definition TRANSACTION_TYPE_OUT_TRANSFER :: int where "TRANSACTION_TYPE_OUT_TRANSFER = 7"

text \<open>
  \<^verbatim>\<open>Transaction\<close>, \<^verbatim>\<open>VoteTransaction\<close> and \<^verbatim>\<open>InTransferTransaction\<close> of \<^verbatim>\<open>types.ts\<close>
  (not among the sources): the fields \<^verbatim>\<open>vote.ts\<close> reads. The asset of a vote carries the
  signed votes, the asset of an in-transfer the \<^verbatim>\<open>dappId\<close>; reading a part that is not
  there is a \<open>TypeError\<close>. Amount and fee are the numbers the transaction carries.
\<close>

record InTransfer =
  dappId :: string

record Asset =
  votes :: "string list option"
  inTransfer :: "InTransfer option"

record Transaction =
  id :: string
  type :: int
  senderId :: string
  recipientId :: "string option"
  amount :: BigNum
  fee :: BigNum
  asset :: Asset

text \<open>
  Modelled from the spec: \<^verbatim>\<open>StateStore\<close> (\<^verbatim>\<open>state_store.ts\<close>, \<^verbatim>\<open>repo.ts\<close>) is not among
  the sources. Section 6 of the specification: three buckets (address to account, candidate
  key to delegate address, transaction id to transaction); \<^verbatim>\<open>get\<close> fails with
  \<open>NotFound\<close> when the key is absent, \<^verbatim>\<open>set\<close> is an upsert, \<^verbatim>\<open>replace\<close> removes the old
  key and inserts the new key with the value.
\<close>

record StateStore =
  accounts :: "string \<rightharpoonup> Account"
  candidates :: "string \<rightharpoonup> string"
  transactions :: "string \<rightharpoonup> Transaction"

definition get_ADDRESS_ACCOUNT :: "StateStore \<Rightarrow> string \<Rightarrow> error + Account" where
  "get_ADDRESS_ACCOUNT store key =
     (case accounts store key of None \<Rightarrow> Inl NotFound | Some a \<Rightarrow> Inr a)"

definition get_TX_ID_TX :: "StateStore \<Rightarrow> string \<Rightarrow> error + Transaction" where
  "get_TX_ID_TX store key =
     (case transactions store key of None \<Rightarrow> Inl NotFound | Some t \<Rightarrow> Inr t)"

definition set_ADDRESS_ACCOUNT :: "StateStore \<Rightarrow> string \<Rightarrow> Account \<Rightarrow> StateStore" where
  "set_ADDRESS_ACCOUNT store key v = store\<lparr>accounts := (accounts store)(key \<mapsto> v)\<rparr>"

definition replace_CANDIDATE :: "StateStore \<Rightarrow> string \<Rightarrow> string \<Rightarrow> string \<Rightarrow> StateStore" where
  "replace_CANDIDATE store oldKey newKey v =
     store\<lparr>candidates := ((candidates store)(oldKey := None))(newKey \<mapsto> v)\<rparr>"

definition candidateKey :: "string \<Rightarrow> string \<Rightarrow> string" where
  "candidateKey weight pk = weight @ '':'' @ pk"

definition updateCandidateKey ::
  "StateStore \<Rightarrow> string \<Rightarrow> string \<Rightarrow> string \<Rightarrow> string \<Rightarrow> StateStore" where
  "updateCandidateKey store oldWeight newWeight addr pk =
     (let oldKey = candidateKey oldWeight pk;
          newKey = candidateKey newWeight pk
      in replace_CANDIDATE store oldKey newKey addr)"

text \<open>
  The code updates the delegates with \<^verbatim>\<open>addresses.forEach(async address => { ... })\<close>.
  Every callback first awaits \<^verbatim>\<open>store.get\<close> of its delegate, then computes the new weight
  from the account it was given and writes the account and the candidate key. Nothing
  awaits the callbacks, and the store may serve their reads and writes in any order. So a
  callback is a value with a phase, and an execution is the store with the callbacks that
  were started; \<open>resume i\<close> lets callback \<open>i\<close> take its next step (the read, then the
  computation with both writes), and a schedule is the order in which callbacks are resumed.
  \<open>change\<close> is the arithmetic of the callback on the weight it read.
\<close>

datatype phase = Pending | Loaded Account | Done | Failed error

record callback =
  target :: string
  change :: "BigNum \<Rightarrow> error + BigNum"
  phase :: phase

record execution =
  current :: StateStore
  callbacks :: "callback list"

text \<open>\<^verbatim>\<open>delegate.votes || '0'\<close>\<close>

definition votesOr0 :: "Account \<Rightarrow> string" where
  "votesOr0 delegate = (if truthy (Account.votes delegate) then the (Account.votes delegate) else ''0'')"

text \<open>\<^verbatim>\<open>new BigNum(delegate.votes || '0')\<close>, the arithmetic of the callback, \<^verbatim>\<open>toString()\<close>.\<close>

definition newVotes :: "(BigNum \<Rightarrow> error + BigNum) \<Rightarrow> Account \<Rightarrow> error + string" where
  "newVotes f delegate =
     (case BigNum_new (votesOr0 delegate) of
        Inl err \<Rightarrow> Inl err
      | Inr w \<Rightarrow> (case f w of Inl err \<Rightarrow> Inl err | Inr w' \<Rightarrow> Inr (BigNum_toString w')))"

definition resume :: "nat \<Rightarrow> execution \<Rightarrow> execution" where
  "resume i c =
     (if i < length (callbacks c) then
        (let cb = callbacks c ! i
         in case phase cb of
              Pending \<Rightarrow>
                (case get_ADDRESS_ACCOUNT (current c) (target cb) of
                   Inl err \<Rightarrow> c\<lparr>callbacks := (callbacks c)[i := cb\<lparr>phase := Failed err\<rparr>]\<rparr>
                 | Inr delegate \<Rightarrow> c\<lparr>callbacks := (callbacks c)[i := cb\<lparr>phase := Loaded delegate\<rparr>]\<rparr>)
            | Loaded delegate \<Rightarrow>
                (case newVotes (change cb) delegate of
                   Inl err \<Rightarrow> c\<lparr>callbacks := (callbacks c)[i := cb\<lparr>phase := Failed err\<rparr>]\<rparr>
                 | Inr v \<Rightarrow>
                     (let updateDelegateVote = delegate\<lparr>Account.votes := Some v\<rparr>;
                          written = set_ADDRESS_ACCOUNT (current c) (target cb) updateDelegateVote;
                          rekeyed =
                            updateCandidateKey written
                              (templateString (Account.votes delegate))
                              (the (Account.votes updateDelegateVote))
                              (address delegate)
                              (templateString (publicKey delegate))
                      in \<lparr> current = rekeyed,
                           callbacks = (callbacks c)[i := cb\<lparr>phase := Done\<rparr>] \<rparr>))
            | Done \<Rightarrow> c
            | Failed err \<Rightarrow> c)
      else c)"

definition run :: "nat list \<Rightarrow> execution \<Rightarrow> execution" where
  "run schedule c = fold resume schedule c"

definition finished :: "phase \<Rightarrow> bool" where
  "finished p = (case p of Pending \<Rightarrow> False | Loaded a \<Rightarrow> False | Done \<Rightarrow> True | Failed err \<Rightarrow> True)"

definition settled :: "execution \<Rightarrow> bool" where
  "settled c = list_all (\<lambda>cb. finished (phase cb)) (callbacks c)"

text \<open>\<^verbatim>\<open>addresses.forEach(async address => ...)\<close>: one pending callback for each address.\<close>

definition forEach :: "(BigNum \<Rightarrow> error + BigNum) \<Rightarrow> string list \<Rightarrow> callback list" where
  "forEach f addresses =
     map (\<lambda>addr. \<lparr> target = addr, change = f, phase = Pending \<rparr>) addresses"

text \<open>
  \<^verbatim>\<open>account.votedDelegatesPublicKeys ? account.votedDelegatesPublicKeys.map(getAddressFromPublicKey) : []\<close>.
  \<^verbatim>\<open>getAddressFromPublicKey\<close> (a hash, in \<^verbatim>\<open>@liskhq/lisk-cryptography\<close>) is a parameter of
  every function that uses it.
\<close>

definition delegateAddresses :: "(string \<Rightarrow> string) \<Rightarrow> Account \<Rightarrow> string list" where
  "delegateAddresses getAddressFromPublicKey account =
     (case votedDelegatesPublicKeys account of
        None \<Rightarrow> []
      | Some pks \<Rightarrow> map getAddressFromPublicKey pks)"

text \<open>
  The six effect functions. Each returns the callbacks it has started when its own promise
  resolves, or the error its promise is rejected with. The reads they await themselves
  (the sender, the referenced transaction, the recipient) are of fields that no callback
  writes: a callback changes \<open>votes\<close> only. A transaction without a recipient has no
  account to look up: \<open>NotFound\<close>.
\<close>

definition applyAmount ::
  "(string \<Rightarrow> string) \<Rightarrow> StateStore \<Rightarrow> Transaction \<Rightarrow> error + callback list" where
  "applyAmount getAddressFromPublicKey store tx =
     (if Transaction.type tx \<notin>
           set [TRANSACTION_TYPE_TRANSFER, TRANSACTION_TYPE_IN_TRANSFER, TRANSACTION_TYPE_OUT_TRANSFER]
      then Inr []
      else
        (case (if Transaction.type tx = TRANSACTION_TYPE_IN_TRANSFER then
                 (case inTransfer (Transaction.asset tx) of
                    None \<Rightarrow> Inl TypeError
                  | Some t \<Rightarrow>
                      (case get_TX_ID_TX store (dappId t) of
                         Inl err \<Rightarrow> Inl err
                       | Inr dappTx \<Rightarrow> Inr (Some (Transaction.senderId dappTx))))
               else Inr (Transaction.recipientId tx)) of
           Inl err \<Rightarrow> Inl err
         | Inr None \<Rightarrow> Inl NotFound
         | Inr (Some rid) \<Rightarrow>
             (case get_ADDRESS_ACCOUNT store rid of
                Inl err \<Rightarrow> Inl err
              | Inr recipient \<Rightarrow>
                  Inr (forEach (\<lambda>w. Inr (w + Transaction.amount tx))
                         (delegateAddresses getAddressFromPublicKey recipient)))))"

definition undoAmount ::
  "(string \<Rightarrow> string) \<Rightarrow> StateStore \<Rightarrow> Transaction \<Rightarrow> error + callback list" where
  "undoAmount getAddressFromPublicKey store tx =
     (if Transaction.type tx \<notin>
           set [TRANSACTION_TYPE_TRANSFER, TRANSACTION_TYPE_IN_TRANSFER, TRANSACTION_TYPE_OUT_TRANSFER]
      then Inr []
      else
        (case (if Transaction.type tx = TRANSACTION_TYPE_IN_TRANSFER then
                 (case inTransfer (Transaction.asset tx) of
                    None \<Rightarrow> Inl TypeError
                  | Some t \<Rightarrow>
                      (case get_TX_ID_TX store (dappId t) of
                         Inl err \<Rightarrow> Inl err
                       | Inr dappTx \<Rightarrow> Inr (Some (Transaction.senderId dappTx))))
               else Inr (Transaction.recipientId tx)) of
           Inl err \<Rightarrow> Inl err
         | Inr None \<Rightarrow> Inl NotFound
         | Inr (Some rid) \<Rightarrow>
             (case get_ADDRESS_ACCOUNT store rid of
                Inl err \<Rightarrow> Inl err
              | Inr recipient \<Rightarrow>
                  Inr (forEach (\<lambda>w. Inr (w - Transaction.amount tx))
                         (delegateAddresses getAddressFromPublicKey recipient)))))"

definition applyFee ::
  "(string \<Rightarrow> string) \<Rightarrow> StateStore \<Rightarrow> Transaction \<Rightarrow> error + callback list" where
  "applyFee getAddressFromPublicKey store tx =
     (case get_ADDRESS_ACCOUNT store (Transaction.senderId tx) of
        Inl err \<Rightarrow> Inl err
      | Inr senderAccount \<Rightarrow>
          Inr (forEach (\<lambda>w. Inr (w - Transaction.fee tx))
                 (delegateAddresses getAddressFromPublicKey senderAccount)))"

definition undoFee ::
  "(string \<Rightarrow> string) \<Rightarrow> StateStore \<Rightarrow> Transaction \<Rightarrow> error + callback list" where
  "undoFee getAddressFromPublicKey store tx =
     (case get_ADDRESS_ACCOUNT store (Transaction.senderId tx) of
        Inl err \<Rightarrow> Inl err
      | Inr senderAccount \<Rightarrow>
          Inr (forEach (\<lambda>w. Inr (w + Transaction.fee tx))
                 (delegateAddresses getAddressFromPublicKey senderAccount)))"

text \<open>\<^verbatim>\<open>votes.filter(signedVote => signedVote[0] === sign).map(v => getAddressFromPublicKey(v.slice(1)))\<close>\<close>

definition signedVotes :: "char \<Rightarrow> (string \<Rightarrow> string) \<Rightarrow> string list \<Rightarrow> string list" where
  "signedVotes sign getAddressFromPublicKey vs =
     map (\<lambda>signedVote. getAddressFromPublicKey (drop 1 signedVote))
       (filter (\<lambda>signedVote. take 1 signedVote = [sign]) vs)"

text \<open>\<^verbatim>\<open>.add(sender.balance)\<close> and \<^verbatim>\<open>.sub(sender.balance)\<close>: the balance is a string, which
  the number library reads.\<close>

definition addString :: "BigNum \<Rightarrow> string \<Rightarrow> error + BigNum" where
  "addString w s = (case BigNum_new s of Inl err \<Rightarrow> Inl err | Inr b \<Rightarrow> Inr (w + b))"

definition subString :: "BigNum \<Rightarrow> string \<Rightarrow> error + BigNum" where
  "subString w s = (case BigNum_new s of Inl err \<Rightarrow> Inl err | Inr b \<Rightarrow> Inr (w - b))"

definition applyNewVote ::
  "(string \<Rightarrow> string) \<Rightarrow> StateStore \<Rightarrow> Transaction \<Rightarrow> error + callback list" where
  "applyNewVote getAddressFromPublicKey store tx =
     (if Transaction.type tx \<noteq> TRANSACTION_TYPE_VOTE then Inr []
      else
        (case get_ADDRESS_ACCOUNT store (Transaction.senderId tx) of
           Inl err \<Rightarrow> Inl err
         | Inr senderAccount \<Rightarrow>
             (case Asset.votes (Transaction.asset tx) of
                None \<Rightarrow> Inl TypeError
              | Some vs \<Rightarrow>
                  (let upvotes = signedVotes CHR ''+'' getAddressFromPublicKey vs;
                       downvotes = signedVotes CHR ''-'' getAddressFromPublicKey vs
                   in Inr (forEach (\<lambda>w. addString w (balance senderAccount)) upvotes
                           @ forEach
                               (\<lambda>w. case subString w (balance senderAccount) of
                                      Inl err \<Rightarrow> Inl err
                                    | Inr w' \<Rightarrow> Inr (w' + Transaction.fee tx))
                               downvotes)))))"

definition undoNewVote ::
  "(string \<Rightarrow> string) \<Rightarrow> StateStore \<Rightarrow> Transaction \<Rightarrow> error + callback list" where
  "undoNewVote getAddressFromPublicKey store tx =
     (if Transaction.type tx \<noteq> TRANSACTION_TYPE_VOTE then Inr []
      else
        (case get_ADDRESS_ACCOUNT store (Transaction.senderId tx) of
           Inl err \<Rightarrow> Inl err
         | Inr senderAccount \<Rightarrow>
             (case Asset.votes (Transaction.asset tx) of
                None \<Rightarrow> Inl TypeError
              | Some vs \<Rightarrow>
                  (let upvotes = signedVotes CHR ''+'' getAddressFromPublicKey vs;
                       downvotes = signedVotes CHR ''-'' getAddressFromPublicKey vs
                   in Inr (forEach (\<lambda>w. subString w (balance senderAccount)) upvotes
                           @ forEach
                               (\<lambda>w. case addString w (balance senderAccount) of
                                      Inl err \<Rightarrow> Inl err
                                    | Inr w' \<Rightarrow> Inr (w' - Transaction.fee tx))
                               downvotes)))))"

text \<open>
  \<^verbatim>\<open>applyVote\<close> and \<^verbatim>\<open>undoVote\<close>: \<^verbatim>\<open>Promise.all\<close> of the three effects, started in this
  order. The result holds the errors of the effects that were rejected (the promise of the
  call is rejected when there is one) and the callbacks the other effects have started.
\<close>

record voteCall =
  rejections :: "error list"
  started :: "callback list"

fun rejectionsOf :: "(error + callback list) list \<Rightarrow> error list" where
  "rejectionsOf [] = []"
| "rejectionsOf (Inl err # rs) = err # rejectionsOf rs"
| "rejectionsOf (Inr cbs # rs) = rejectionsOf rs"

fun startedBy :: "(error + callback list) list \<Rightarrow> callback list" where
  "startedBy [] = []"
| "startedBy (Inl err # rs) = startedBy rs"
| "startedBy (Inr cbs # rs) = cbs @ startedBy rs"

definition applyVote :: "(string \<Rightarrow> string) \<Rightarrow> StateStore \<Rightarrow> Transaction \<Rightarrow> voteCall" where
  "applyVote getAddressFromPublicKey store tx =
     (let effects =
            [applyFee getAddressFromPublicKey store tx,
             applyAmount getAddressFromPublicKey store tx,
             applyNewVote getAddressFromPublicKey store tx]
      in \<lparr> rejections = rejectionsOf effects, started = startedBy effects \<rparr>)"

definition undoVote :: "(string \<Rightarrow> string) \<Rightarrow> StateStore \<Rightarrow> Transaction \<Rightarrow> voteCall" where
  "undoVote getAddressFromPublicKey store tx =
     (let effects =
            [undoFee getAddressFromPublicKey store tx,
             undoAmount getAddressFromPublicKey store tx,
             undoNewVote getAddressFromPublicKey store tx]
      in \<lparr> rejections = rejectionsOf effects, started = startedBy effects \<rparr>)"

text \<open>The store after the callbacks of a call have run under a schedule, and the weight of
  a delegate in a store as the code reads it.\<close>

definition outcome :: "nat list \<Rightarrow> StateStore \<Rightarrow> callback list \<Rightarrow> execution" where
  "outcome schedule store cbs = run schedule \<lparr> current = store, callbacks = cbs \<rparr>"

definition weight :: "StateStore \<Rightarrow> string \<Rightarrow> error + BigNum" where
  "weight store addr =
     (case get_ADDRESS_ACCOUNT store addr of
        Inl err \<Rightarrow> Inl err
      | Inr delegate \<Rightarrow> BigNum_new (votesOr0 delegate))"

text \<open>
  The callbacks an effect has started (none when it was rejected), the store after
  \<^verbatim>\<open>applyVote\<close> and after \<^verbatim>\<open>undoVote\<close> under a schedule, and the schedule that runs the
  callbacks one after the other, each to its end.
\<close>

definition callbacksOf :: "error + callback list \<Rightarrow> callback list" where
  "callbacksOf r = (case r of Inl err \<Rightarrow> [] | Inr cbs \<Rightarrow> cbs)"

definition afterApplyVote :: "nat list \<Rightarrow> (string \<Rightarrow> string) \<Rightarrow> StateStore \<Rightarrow> Transaction \<Rightarrow> StateStore" where
  "afterApplyVote schedule g store tx =
     current (outcome schedule store (started (applyVote g store tx)))"

definition afterUndoVote :: "nat list \<Rightarrow> (string \<Rightarrow> string) \<Rightarrow> StateStore \<Rightarrow> Transaction \<Rightarrow> StateStore" where
  "afterUndoVote schedule g store tx =
     current (outcome schedule store (started (undoVote g store tx)))"

definition serial :: "nat \<Rightarrow> nat list" where
  "serial n = concat (map (\<lambda>i. [i, i]) [0..<n])"

section \<open>Compositions the properties speak about\<close>

text \<open>\<^verbatim>\<open>undo(apply(sender))\<close> and \<^verbatim>\<open>apply(apply(sender))\<close> on one transaction object: the
  second call is made on the account the first one returned, with the flag the first one left.\<close>

definition undoAfterApply ::
  "'a BaseTransaction \<Rightarrow> Account \<Rightarrow> error + (StateReturn \<times> 'a BaseTransaction)" where
  "undoAfterApply this senderAccount =
     (case apply_tx this senderAccount of
        Inl err \<Rightarrow> Inl err
      | Inr (r, this') \<Rightarrow> undo this' (sender r))"

definition applyTwice ::
  "'a BaseTransaction \<Rightarrow> Account \<Rightarrow> error + (StateReturn \<times> 'a BaseTransaction)" where
  "applyTwice this senderAccount =
     (case apply_tx this senderAccount of
        Inl err \<Rightarrow> Inl err
      | Inr (r, this') \<Rightarrow> apply_tx this' (sender r))"

text \<open>
  The bytes of an optional hexadecimal field (nothing when it is absent or empty), and the
  number a word of bytes stands for in a given byte order: what the layout of
  \<^verbatim>\<open>getBytes\<close> is stated with.
\<close>

definition optionalHex :: "string option \<Rightarrow> error + byte list" where
  "optionalHex s = (if truthy s then hexToBuffer (the s) else Inr [])"

definition wordValue :: "endian \<Rightarrow> byte list \<Rightarrow> nat" where
  "wordValue e bs = (case e of Little \<Rightarrow> leValue bs | Big \<Rightarrow> leValue (rev bs))"

text \<open>The store after the callbacks of the new-vote effect alone have run under a schedule.\<close>

definition afterApplyNewVote ::
  "nat list \<Rightarrow> (string \<Rightarrow> string) \<Rightarrow> StateStore \<Rightarrow> Transaction \<Rightarrow> StateStore" where
  "afterApplyNewVote schedule g store tx =
     current (outcome schedule store (callbacksOf (applyNewVote g store tx)))"

definition afterUndoNewVote ::
  "nat list \<Rightarrow> (string \<Rightarrow> string) \<Rightarrow> StateStore \<Rightarrow> Transaction \<Rightarrow> StateStore" where
  "afterUndoNewVote schedule g store tx =
     current (outcome schedule store (callbacksOf (undoNewVote g store tx)))"

section \<open>The invariant of an execution\<close>

text \<open>
  What a callback that ran to its end has made of the account of its delegate, and what
  holds of an execution whose callbacks have different targets: each callback sees and
  leaves the account of its own delegate, whatever the other callbacks do.
\<close>

definition written :: "(BigNum \<Rightarrow> error + BigNum) \<Rightarrow> Account \<Rightarrow> Account" where
  "written f delegate =
     (case newVotes f delegate of
        Inl err \<Rightarrow> delegate
      | Inr v \<Rightarrow> delegate\<lparr>Account.votes := Some v\<rparr>)"

definition phaseOk :: "StateStore \<Rightarrow> callback \<Rightarrow> phase \<Rightarrow> Account option \<Rightarrow> bool" where
  "phaseOk st cb p cur =
     (case p of
        Pending \<Rightarrow> cur = accounts st (target cb)
      | Loaded a \<Rightarrow> accounts st (target cb) = Some a \<and> cur = Some a
      | Done \<Rightarrow> cur = map_option (written (change cb)) (accounts st (target cb))
      | Failed err \<Rightarrow> cur = map_option (written (change cb)) (accounts st (target cb)))"

definition invariant :: "StateStore \<Rightarrow> callback list \<Rightarrow> execution \<Rightarrow> bool" where
  "invariant st cbs c =
     (length (callbacks c) = length cbs
      \<and> (\<forall>i < length cbs.
            target (callbacks c ! i) = target (cbs ! i)
            \<and> change (callbacks c ! i) = change (cbs ! i)
            \<and> phaseOk st (cbs ! i) (phase (callbacks c ! i)) (accounts (current c) (target (cbs ! i))))
      \<and> (\<forall>x. x \<notin> set (map target cbs) \<longrightarrow> accounts (current c) x = accounts st x))"

text \<open>
  The same for one callback whose target no other callback shares, whatever the targets of
  the others: \<open>alone cbs i\<close> says so of callback \<open>i\<close>, and \<open>isolated\<close> is what holds of it
  during the execution.
\<close>

definition alone :: "callback list \<Rightarrow> nat \<Rightarrow> bool" where
  "alone cbs i =
     (i < length cbs \<and> (\<forall>j < length cbs. j \<noteq> i \<longrightarrow> target (cbs ! j) \<noteq> target (cbs ! i)))"

definition isolated :: "StateStore \<Rightarrow> callback list \<Rightarrow> nat \<Rightarrow> execution \<Rightarrow> bool" where
  "isolated st cbs i c =
     (map target (callbacks c) = map target cbs
      \<and> change (callbacks c ! i) = change (cbs ! i)
      \<and> phaseOk st (cbs ! i) (phase (callbacks c ! i)) (accounts (current c) (target (cbs ! i))))"

text \<open>
  What every execution keeps, with or without shared targets: a callback writes the account
  it has read with another weight, so the accounts that exist and all their fields but
  \<open>votes\<close> stay as they were.
\<close>

definition sameButVotes :: "Account \<Rightarrow> Account \<Rightarrow> bool" where
  "sameButVotes a a' = (a'\<lparr>Account.votes := Account.votes a\<rparr> = a)"

definition loadedOk :: "StateStore \<Rightarrow> callback \<Rightarrow> bool" where
  "loadedOk st cb =
     (case phase cb of
        Loaded a \<Rightarrow>
          (case accounts st (target cb) of None \<Rightarrow> False | Some a0 \<Rightarrow> sameButVotes a0 a)
      | _ \<Rightarrow> True)"

definition kept :: "StateStore \<Rightarrow> execution \<Rightarrow> bool" where
  "kept st c =
     ((\<forall>x. rel_option sameButVotes (accounts st x) (accounts (current c) x))
      \<and> list_all (loadedOk st) (callbacks c))"

section \<open>Concrete inputs\<close>

text \<open>An account, a transfer transaction that has no signature, a list of recognised types and
  a schema validator that reports one error: the inputs at which the properties are evaluated.\<close>

definition exampleSender :: Account where
  "exampleSender =
     \<lparr> address = ''16313739661670634666L'', publicKey = None, secondPublicKey = None,
       balance = ''100'', votes = None, votedDelegatesPublicKeys = None \<rparr>"

definition exampleTransaction :: "unit BaseTransaction" where
  "exampleTransaction =
     \<lparr> BaseTransaction.amount = 500, BaseTransaction.fee = 10, BaseTransaction.id = ''1'',
       BaseTransaction.recipientId = Some ''2L'', BaseTransaction.recipientPublicKey = None,
       BaseTransaction.senderId = ''16313739661670634666L'',
       BaseTransaction.senderPublicKey =
         ''c094ebee7ec0c50ebee32918655e089f6e1a604b83bcaa760293c61e0f18ab6f'',
       BaseTransaction.signature = None, BaseTransaction.signatures = [],
       BaseTransaction.signSignature = None, BaseTransaction.timestamp = 38350076,
       BaseTransaction.type = 0, BaseTransaction.asset = (), applied = False \<rparr>"

definition exampleTypes :: "int list" where
  "exampleTypes = [0, 1, 2, 3, 4, 5, 6, 7]"

definition exampleSchemaError :: ErrorObject where
  "exampleSchemaError = \<lparr> dataPath = ''.amount'', message = ''should be string'' \<rparr>"

definition failingSchema ::
  "unit TransactionJSON \<Rightarrow> error + bool \<times> ErrorObject list option" where
  "failingSchema json = Inr (False, Some [exampleSchemaError])"

text \<open>
  The bytes of the public key of the example, the example with a second signature and no
  first one, and the example with both signatures.
\<close>

definition examplePublicKeyBytes :: "byte list" where
  "examplePublicKeyBytes =
     [192, 148, 235, 238, 126, 192, 197, 14, 190, 227, 41, 24, 101, 94, 8, 159,
      110, 26, 96, 75, 131, 188, 170, 118, 2, 147, 198, 30, 15, 24, 171, 111]"

definition secondSignedOnly :: "unit BaseTransaction" where
  "secondSignedOnly = exampleTransaction\<lparr>BaseTransaction.signSignature := Some ''ab''\<rparr>"

definition signedTwice :: "unit BaseTransaction" where
  "signedTwice =
     exampleTransaction
       \<lparr>BaseTransaction.signature := Some ''0a0b'', BaseTransaction.signSignature := Some ''ab''\<rparr>"

text \<open>
  A store with a voter (balance 1000, voting for the delegate \<open>d3\<close>) and three delegates,
  a vote transaction with fee 10 that votes for \<open>d1\<close> and against \<open>d2\<close>, the same
  voter voting for \<open>d2\<close>, and an in-transfer of 500 whose \<^verbatim>\<open>dappId\<close> names a transaction
  sent by the voter. Addresses are written as the public key followed by \<open>L\<close>.
\<close>

definition exampleAddress :: "string \<Rightarrow> string" where
  "exampleAddress pk = pk @ ''L''"

definition exampleDelegate :: "string \<Rightarrow> string \<Rightarrow> Account" where
  "exampleDelegate pk v =
     \<lparr> address = exampleAddress pk, publicKey = Some pk, secondPublicKey = None,
       balance = ''0'', votes = Some v, votedDelegatesPublicKeys = None \<rparr>"

definition exampleVoter :: Account where
  "exampleVoter =
     \<lparr> address = ''vL'', publicKey = Some ''v'', secondPublicKey = None,
       balance = ''1000'', votes = None, votedDelegatesPublicKeys = Some [''d3''] \<rparr>"

definition exampleStore :: "Account \<Rightarrow> StateStore" where
  "exampleStore voter =
     \<lparr> accounts =
         [''vL'' \<mapsto> voter,
          ''d1L'' \<mapsto> exampleDelegate ''d1'' ''2000'',
          ''d2L'' \<mapsto> exampleDelegate ''d2'' ''5000'',
          ''d3L'' \<mapsto> exampleDelegate ''d3'' ''7000''],
       candidates = [''2000:d1'' \<mapsto> ''d1L'', ''5000:d2'' \<mapsto> ''d2L'', ''7000:d3'' \<mapsto> ''d3L''],
       transactions = Map.empty \<rparr>"

definition exampleVote :: Transaction where
  "exampleVote =
     \<lparr> Transaction.id = ''7'', type = 3, senderId = ''vL'', recipientId = None, amount = 0,
       fee = 10, asset = \<lparr> votes = Some [''+d1'', ''-d2''], inTransfer = None \<rparr> \<rparr>"

definition overlappingVoter :: Account where
  "overlappingVoter = exampleVoter\<lparr>votedDelegatesPublicKeys := Some [''d2'']\<rparr>"

definition exampleDapp :: Transaction where
  "exampleDapp =
     \<lparr> Transaction.id = ''5'', type = 5, senderId = ''vL'', recipientId = None, amount = 0,
       fee = 2500000000, asset = \<lparr> votes = None, inTransfer = None \<rparr> \<rparr>"

definition exampleInTransfer :: Transaction where
  "exampleInTransfer =
     \<lparr> Transaction.id = ''9'', type = 6, senderId = ''d1L'', recipientId = Some ''d2L'',
       amount = 500, fee = 10,
       asset = \<lparr> votes = None, inTransfer = Some \<lparr> dappId = ''5'' \<rparr> \<rparr> \<rparr>"

definition exampleDappStore :: StateStore where
  "exampleDappStore = (exampleStore exampleVoter)\<lparr>transactions := [''5'' \<mapsto> exampleDapp]\<rparr>"



section \<open>Decimal numerals\<close>

text \<open>Printing a number and reading it back gives the number.\<close>

lemma parseDigits_append:
  "parseDigits acc (xs @ [c]) =
     (case parseDigits acc xs of
        None \<Rightarrow> None
      | Some m \<Rightarrow> (case digitValue c of None \<Rightarrow> None | Some d \<Rightarrow> Some (10 * m + d)))"
  by (induction xs arbitrary: acc) (auto split: option.splits)

lemma digitValue_digitChar: "d < 10 \<Longrightarrow> digitValue (digitChar d) = Some d"
  by (simp add: digitValue_def digitChar_def Let_def)

lemma parseDigits_digitsOf: "parseDigits 0 (digitsOf n) = Some n"
proof (induction n rule: digitsOf.induct)
  case (1 n)
  show ?case
  proof (cases "n < 10")
    case True
    then show ?thesis by (subst digitsOf.simps) (simp add: digitValue_digitChar)
  next
    case False
    then have "parseDigits 0 (digitsOf (n div 10)) = Some (n div 10)"
      using "1.IH" by simp
    moreover have "digitsOf n = digitsOf (n div 10) @ [digitChar (n mod 10)]"
      using False by (subst digitsOf.simps) simp
    ultimately show ?thesis
      by (simp add: parseDigits_append digitValue_digitChar)
  qed
qed

lemma digitsOf_not_Nil: "digitsOf n \<noteq> []"
  by (subst digitsOf.simps) simp

text \<open>A string of digits holds none of the characters the constructor gives a meaning to.\<close>

lemma parseDigits_digits:
  "parseDigits acc s = Some n \<Longrightarrow> c \<in> set s \<Longrightarrow> digitValue c \<noteq> None"
  by (induction s arbitrary: acc) (auto split: option.splits)

lemma digit_not_special:
  assumes "digitValue c \<noteq> None"
  shows "c \<noteq> CHR ''-''" "notPoint c" "notExponent c"
proof -
  have r: "48 \<le> (of_char c :: nat) \<and> (of_char c :: nat) \<le> 57"
    using assms by (simp add: digitValue_def Let_def split: if_splits)
  show "c \<noteq> CHR ''-''"
    using r by auto
  show "notPoint c" "notExponent c"
    using r by (auto simp: notPoint_def notExponent_def)
qed

lemma mantissa_digits:
  assumes "parseDigits 0 s = Some n" "s \<noteq> []"
  shows "mantissa s = Some (n, 0)"
proof -
  have "\<forall>c \<in> set s. notPoint c"
    using parseDigits_digits [OF assms(1)] digit_not_special(2) by blast
  then have tw: "takeWhile notPoint s = s" "dropWhile notPoint s = []"
    by simp_all
  show ?thesis
    using assms by (simp add: mantissa_def tw)
qed

lemma decimalLiteral_digits:
  assumes "parseDigits 0 s = Some n" "s \<noteq> []"
  shows "decimalLiteral s = Some (n, 0)"
proof -
  have "\<forall>c \<in> set s. notExponent c"
    using parseDigits_digits [OF assms(1)] digit_not_special(3) by blast
  then have tw: "takeWhile notExponent s = s" "dropWhile notExponent s = []"
    by simp_all
  show ?thesis
    by (simp add: decimalLiteral_def tw mantissa_digits [OF assms])
qed

text \<open>The constructor on a numeral of digits, and on one with a minus sign.\<close>

lemma BigNum_new_digits:
  assumes "parseDigits 0 s = Some n" "s \<noteq> []"
  shows "BigNum_new s = Inr (int n)"
proof -
  obtain c cs where s: "s = c # cs"
    using assms(2) by (cases s) auto
  have "digitValue c \<noteq> None"
    using parseDigits_digits [OF assms(1), of c] s by simp
  then have c: "c \<noteq> CHR ''-''"
    by (rule digit_not_special(1))
  have "decimalLiteral (c # cs) = Some (n, 0)"
    using decimalLiteral_digits [OF assms] by (simp add: s)
  then show ?thesis
    using c by (simp add: BigNum_new_def readLiteral_def signedLiteral_def s wholeNumber_def)
qed

lemma BigNum_new_minus_digits:
  assumes "parseDigits 0 s = Some n" "s \<noteq> []"
  shows "BigNum_new (CHR ''-'' # s) = Inr (- int n)"
  using decimalLiteral_digits [OF assms]
  by (simp add: BigNum_new_def readLiteral_def signedLiteral_def wholeNumber_def)

text \<open>The digits of a number without the zeros at its end.\<close>

lemma stripZeros_snoc:
  "stripZeros (ds @ [c]) = (if c = CHR ''0'' then stripZeros ds else ds @ [c])"
  by (simp add: stripZeros_def)

lemma length_stripZeros: "length (stripZeros ds) \<le> length ds"
  using length_dropWhile_le [of "\<lambda>c. c = CHR ''0''" "rev ds"] by (simp add: stripZeros_def)

lemma set_stripZeros: "set (stripZeros ds) \<subseteq> set ds"
  using set_dropWhileD [of _ "\<lambda>c. c = CHR ''0''" "rev ds"] by (auto simp: stripZeros_def)

lemma digitValue_zero: "digitValue (CHR ''0'') = Some 0"
  by (simp add: digitValue_def)

lemma stripZeros_value:
  "parseDigits 0 ds = Some n \<Longrightarrow>
   \<exists>m. parseDigits 0 (stripZeros ds) = Some m
        \<and> m * 10 ^ (length ds - length (stripZeros ds)) = n"
proof (induction ds arbitrary: n rule: rev_induct)
  case Nil
  then show ?case by (simp add: stripZeros_def)
next
  case (snoc c ds)
  show ?case
  proof (cases "c = CHR ''0''")
    case True
    from snoc.prems True obtain k where k: "parseDigits 0 ds = Some k" "n = 10 * k"
      by (auto simp: parseDigits_append digitValue_zero split: option.splits)
    from snoc.IH [OF k(1)] obtain m where
      m: "parseDigits 0 (stripZeros ds) = Some m"
         "m * 10 ^ (length ds - length (stripZeros ds)) = k"
      by blast
    have "length (ds @ [c]) - length (stripZeros ds) =
        Suc (length ds - length (stripZeros ds))"
      using length_stripZeros [of ds] by simp
    then show ?thesis
      using m k(2) True by (simp add: stripZeros_snoc)
  next
    case False
    then show ?thesis
      using snoc.prems by (simp add: stripZeros_snoc)
  qed
qed

text \<open>Exponential notation read back.\<close>

lemma exponentPart_plus:
  "exponentPart (CHR ''+'' # digitsOf e) = Some (int e)"
  by (simp add: exponentPart_def digitsOf_not_Nil parseDigits_digitsOf)

lemma decimalLiteral_exponentialForm:
  assumes "0 < n"
  shows "\<exists>m k. decimalLiteral (exponentialForm (digitsOf n)) = Some (m, k)
           \<and> wholeNumber m k = Some n"
proof -
  let ?ds = "digitsOf n"
  obtain m where m: "parseDigits 0 (stripZeros ?ds) = Some m"
      "m * 10 ^ (length ?ds - length (stripZeros ?ds)) = n"
    using stripZeros_value [OF parseDigits_digitsOf] by blast
  have "0 < m"
    using m(2) assms by (cases m) auto
  then have "stripZeros ?ds \<noteq> []"
    using m(1) by auto
  then obtain x xs where c: "stripZeros ?ds = x # xs"
    by (cases "stripZeros ?ds") auto
  have dig: "\<And>y. y \<in> set (x # xs) \<Longrightarrow> digitValue y \<noteq> None"
    using parseDigits_digits [OF m(1)] c by simp
  define front where "front = x # (if xs = [] then [] else CHR ''.'' # xs)"
  have form: "exponentialForm ?ds = front @ CHR ''e'' # CHR ''+'' # digitsOf (length ?ds - 1)"
    by (simp add: exponentialForm_def c front_def)
  have ne: "\<forall>y \<in> set front. notExponent y"
    using dig digit_not_special(3) by (auto simp: front_def notExponent_def)
  have tw: "takeWhile notExponent (exponentialForm ?ds) = front"
    using ne by (simp add: form notExponent_def)
  have dw: "dropWhile notExponent (exponentialForm ?ds) =
      CHR ''e'' # CHR ''+'' # digitsOf (length ?ds - 1)"
    using ne by (simp add: form notExponent_def)
  have np: "notPoint x" "\<forall>y \<in> set xs. notPoint y"
    using dig digit_not_special(2) by auto
  have mant: "mantissa front = Some (m, length xs)"
  proof (cases "xs = []")
    case True
    then show ?thesis
      using np m(1) c by (simp add: front_def mantissa_def)
  next
    case False
    have "takeWhile notPoint front = [x]" "dropWhile notPoint front = CHR ''.'' # xs"
      using np False by (simp_all add: front_def notPoint_def)
    then show ?thesis
      using m(1) c False by (simp add: mantissa_def)
  qed
  have lit: "decimalLiteral (exponentialForm ?ds) =
      Some (m, int (length ?ds - 1) - int (length xs))"
    by (simp add: decimalLiteral_def tw dw mant exponentPart_plus)
  have len: "length xs < length ?ds"
    using length_stripZeros [of ?ds] c by simp
  then have k: "int (length ?ds - 1) - int (length xs) =
      int (length ?ds - length (stripZeros ?ds))"
    using c by simp
  have "wholeNumber m (int (length ?ds - 1) - int (length xs)) = Some n"
    unfolding k using m(2) by (simp add: wholeNumber_def)
  then show ?thesis
    using lit by blast
qed

lemma magnitudeString_digit:
  "magnitudeString n \<noteq> [] \<and> digitValue (hd (magnitudeString n)) \<noteq> None"
proof -
  let ?ds = "digitsOf n"
  have d: "\<And>y. y \<in> set ?ds \<Longrightarrow> digitValue y \<noteq> None"
    using parseDigits_digits [OF parseDigits_digitsOf] by blast
  have plain: "?ds \<noteq> [] \<and> digitValue (hd ?ds) \<noteq> None"
    using d digitsOf_not_Nil [of n] by simp
  show ?thesis
  proof (cases "length ?ds - 1 < TO_EXP_POS")
    case True
    then show ?thesis
      using plain by (simp add: magnitudeString_def)
  next
    case False
    show ?thesis
    proof (cases "stripZeros ?ds")
      case Nil
      then show ?thesis
        using False plain by (simp add: magnitudeString_def exponentialForm_def)
    next
      case (Cons x xs)
      have "x \<in> set ?ds"
        using set_stripZeros [of ?ds] Cons by auto
      then have "digitValue x \<noteq> None"
        using d by blast
      then show ?thesis
        using False Cons by (simp add: magnitudeString_def exponentialForm_def)
    qed
  qed
qed

lemma decimalLiteral_magnitudeString:
  "\<exists>m k. decimalLiteral (magnitudeString n) = Some (m, k) \<and> wholeNumber m k = Some n"
proof (cases "length (digitsOf n) - 1 < TO_EXP_POS")
  case True
  then show ?thesis
    using decimalLiteral_digits [OF parseDigits_digitsOf digitsOf_not_Nil, of n]
    by (simp add: magnitudeString_def wholeNumber_def)
next
  case False
  have "0 < n"
  proof (rule ccontr)
    assume "\<not> 0 < n"
    then have "digitsOf n = [digitChar 0]"
      by (subst digitsOf.simps) simp
    with False show False
      by (simp add: TO_EXP_POS_def)
  qed
  then show ?thesis
    using False decimalLiteral_exponentialForm by (simp add: magnitudeString_def)
qed

lemma BigNum_new_magnitudeString:
  "BigNum_new (magnitudeString n) = Inr (int n)"
  "BigNum_new (CHR ''-'' # magnitudeString n) = Inr (- int n)"
proof -
  let ?s = "magnitudeString n"
  obtain c cs where s: "?s = c # cs"
    using magnitudeString_digit [of n] by (cases ?s) auto
  have "digitValue c \<noteq> None"
    using magnitudeString_digit [of n] s by simp
  then have c: "c \<noteq> CHR ''-''"
    by (rule digit_not_special(1))
  obtain m k where mk: "decimalLiteral ?s = Some (m, k)" "wholeNumber m k = Some n"
    using decimalLiteral_magnitudeString by blast
  have "decimalLiteral (c # cs) = Some (m, k)"
    using mk(1) by (simp add: s)
  then show "BigNum_new ?s = Inr (int n)"
    using c mk(2) by (simp add: BigNum_new_def readLiteral_def signedLiteral_def s)
  show "BigNum_new (CHR ''-'' # ?s) = Inr (- int n)"
    using mk by (simp add: BigNum_new_def readLiteral_def signedLiteral_def)
qed

lemma BigNum_new_toString: "BigNum_new (BigNum_toString n) = Inr n"
  by (cases "n < 0") (simp_all add: BigNum_toString_def BigNum_new_magnitudeString)

lemma digitChar_values:
  "digitChar 0 = CHR ''0''" "digitChar 1 = CHR ''1''" "digitChar 2 = CHR ''2''"
  "digitChar 3 = CHR ''3''" "digitChar 4 = CHR ''4''" "digitChar 5 = CHR ''5''"
  "digitChar 6 = CHR ''6''" "digitChar 7 = CHR ''7''" "digitChar 8 = CHR ''8''"
  "digitChar 9 = CHR ''9''" "digitChar (Suc 0) = CHR ''1''"
  by code_simp+

lemma canonical_roundtrip:
  "canonicalDecimal s \<Longrightarrow> \<exists>n. BigNum_new s = Inr n \<and> BigNum_toString n = s \<and> withinRange n"
  by (auto simp: canonicalDecimal_def split: sum.splits)

text \<open>Numbers of up to 30 digits are within the range.\<close>

lemma withinRange_small: "\<bar>n\<bar> < 10 ^ 30 \<Longrightarrow> withinRange n"
proof -
  assume a: "\<bar>n\<bar> < 10 ^ 30"
  have "(30::nat) \<le> MAX_EXP"
    by (simp add: MAX_EXP_def)
  then have "(10::int) ^ 30 \<le> 10 ^ MAX_EXP"
    by (intro power_increasing) simp_all
  with a show ?thesis
    unfolding withinRange_def by (rule less_le_trans)
qed

text \<open>Numbers below \<open>10\<^sup>2\<^sup>1\<close> print as their digits.\<close>

lemma length_digitsOf: "n < 10 ^ Suc k \<Longrightarrow> length (digitsOf n) \<le> Suc k"
proof (induction k arbitrary: n)
  case 0
  then show ?case by (subst digitsOf.simps) simp
next
  case (Suc k)
  show ?case
  proof (cases "n < 10")
    case True
    then show ?thesis by (subst digitsOf.simps) simp
  next
    case False
    have "n div 10 < 10 ^ Suc k"
      using Suc.prems by (simp add: less_mult_imp_div_less mult.commute)
    from Suc.IH [OF this] show ?thesis
      using False by (subst digitsOf.simps) simp
  qed
qed

lemma BigNum_toString_plain:
  "0 \<le> n \<Longrightarrow> n < 10 ^ 21 \<Longrightarrow> BigNum_toString n = digitsOf (nat n)"
proof -
  assume a: "0 \<le> n" "n < 10 ^ 21"
  then have "nat n < 10 ^ Suc 20"
    by (simp add: nat_less_iff)
  from length_digitsOf [OF this] have "length (digitsOf (nat n)) - 1 < 21"
    by simp
  then show ?thesis
    using a by (simp add: BigNum_toString_def magnitudeString_def TO_EXP_POS_def Let_def)
qed

text \<open>What the constructor makes of some strings, and what \<^verbatim>\<open>toString()\<close> prints around
  \<open>10\<^sup>2\<^sup>1\<close>.\<close>

lemma BigNum_new_reads:
  "BigNum_new '' 100 '' = Inr 100"
  "BigNum_new ''+100'' = Inr 100"
  "BigNum_new ''-100'' = Inr (- 100)"
  "BigNum_new ''1e3'' = Inr 1000"
  "BigNum_new ''12.50E+1'' = Inr 125"
  "BigNum_new ''100e-2'' = Inr 1"
  "BigNum_new ''1.5'' = Inl NotWhole"
  "BigNum_new ''Infinity'' = Inl NotWhole"
  "BigNum_new ''12a'' = Inl MalformedNumber"
  "BigNum_new ''+-5'' = Inl MalformedNumber"
  "BigNum_new [] = Inl MalformedNumber"
  by (simp_all add: BigNum_new_def readLiteral_def signedLiteral_def decimalLiteral_def
      plainLiteral_def mantissa_def exponentPart_def wholeNumber_def nonFinite_def trim_def
      stripPlus_def isBlank_def notPoint_def notExponent_def digitValue_def)

lemma BigNum_toString_prints:
  "BigNum_toString 0 = ''0''"
  "BigNum_toString (- 7) = ''-7''"
  "BigNum_toString 999999999999999999999 = ''999999999999999999999''"
  "BigNum_toString 1000000000000000000000 = ''1e+21''"
  "BigNum_toString (- 1200000000000000000000000) = ''-1.2e+24''"
  by (simp_all add: BigNum_toString_def magnitudeString_def exponentialForm_def stripZeros_def
      TO_EXP_POS_def digitsOf.simps digitChar_values)

section \<open>The transaction life cycle\<close>

subsection \<open>C1: undo after apply\<close>

lemma example_balances:
  "BigNum_new ''100'' = Inr 100" "BigNum_new ''0100'' = Inr 100" "BigNum_new ''90'' = Inr 90"
  "BigNum_toString 90 = ''90''" "BigNum_toString 100 = ''100''" "BigNum_toString 110 = ''110''"
  by (simp_all add: BigNum_new_digits digitValue_def BigNum_toString_plain digitsOf.simps
      digitChar_values)

text \<open>
  Claim C1 says that \<^verbatim>\<open>undo(apply(sender, tx), tx)\<close> is \<open>sender\<close> for every account and
  every transaction. On a transaction whose flag \<open>applied\<close> is already set, \<^verbatim>\<open>apply\<close>
  returns the account as it is and \<^verbatim>\<open>undo\<close> then adds the fee: from a balance of 100 and
  a fee of 10 the account comes back with 110.
\<close>

theorem undo_apply_counterexample:
  "undoAfterApply (exampleTransaction\<lparr>applied := True\<rparr>) exampleSender =
     Inr (\<lparr> sender = exampleSender\<lparr>balance := ''110''\<rparr> \<rparr>, exampleTransaction\<lparr>applied := True\<rparr>)
   \<and> exampleSender\<lparr>balance := ''110''\<rparr> \<noteq> exampleSender"
  by (simp add: undoAfterApply_def apply_tx_def undo_def exampleTransaction_def exampleSender_def
      example_balances)

text \<open>
  A balance that is not written the way \<^verbatim>\<open>toString()\<close> prints it comes back re-printed:
  \<open>0100\<close> returns as \<open>100\<close>, the same number in another string. So does a balance of
  22 digits: \<^verbatim>\<open>toString()\<close> prints the numbers from \<open>10\<^sup>2\<^sup>1\<close> on in exponential
  notation.
\<close>

lemma undo_apply_reprints:
  "undoAfterApply exampleTransaction (exampleSender\<lparr>balance := ''0100''\<rparr>) =
     Inr (\<lparr> sender = exampleSender\<lparr>balance := ''100''\<rparr> \<rparr>, exampleTransaction\<lparr>applied := True\<rparr>)"
  by (simp add: undoAfterApply_def apply_tx_def undo_def exampleTransaction_def exampleSender_def
      example_balances)

lemma large_balances:
  "BigNum_new ''1000000000000000000005'' = Inr 1000000000000000000005"
  "BigNum_toString 999999999999999999995 = ''999999999999999999995''"
  "BigNum_new ''999999999999999999995'' = Inr 999999999999999999995"
  "BigNum_toString 1000000000000000000005 = ''1.000000000000000000005e+21''"
  "BigNum_new ''1.000000000000000000005e+21'' = Inr 1000000000000000000005"
proof -
  show "BigNum_new ''1000000000000000000005'' = Inr 1000000000000000000005"
    "BigNum_new ''999999999999999999995'' = Inr 999999999999999999995"
    by (simp_all add: BigNum_new_digits digitValue_def)
  show "BigNum_toString 999999999999999999995 = ''999999999999999999995''"
    by (simp add: BigNum_toString_plain digitsOf.simps digitChar_values)
  show p: "BigNum_toString 1000000000000000000005 = ''1.000000000000000000005e+21''"
    by (simp add: BigNum_toString_def magnitudeString_def exponentialForm_def stripZeros_def
        TO_EXP_POS_def digitsOf.simps digitChar_values)
  show "BigNum_new ''1.000000000000000000005e+21'' = Inr 1000000000000000000005"
    using BigNum_new_toString [of 1000000000000000000005] by (simp only: p)
qed

lemma undo_apply_exponential:
  "undoAfterApply exampleTransaction (exampleSender\<lparr>balance := ''1000000000000000000005''\<rparr>) =
     Inr (\<lparr> sender = exampleSender\<lparr>balance := ''1.000000000000000000005e+21''\<rparr> \<rparr>,
          exampleTransaction\<lparr>applied := True\<rparr>)"
  by (simp add: undoAfterApply_def apply_tx_def undo_def exampleTransaction_def exampleSender_def
      large_balances)

text \<open>
  C1 (as amended): for every transaction whose flag \<open>applied\<close> is not set and whose fee
  is within the range, and every account whose balance is written the way \<^verbatim>\<open>toString()\<close>
  prints its number (a whole number within the range: its digits below \<open>10\<^sup>2\<^sup>1\<close>,
  exponential notation from there on), \<^verbatim>\<open>undo\<close> on the result of \<^verbatim>\<open>apply\<close> returns the
  account it started from, the balance string included, and leaves the flag set. (The range
  is that of the library, which has no finite number beyond it; the integers of the model
  are not bounded.)
\<close>

theorem undo_apply_restores:
  assumes "\<not> applied tx" and "canonicalDecimal (balance s)"
    and "withinRange (BaseTransaction.fee tx)"
  shows "undoAfterApply tx s = Inr (\<lparr> sender = s \<rparr>, tx\<lparr>applied := True\<rparr>)"
proof -
  obtain n where n: "BigNum_new (balance s) = Inr n" "BigNum_toString n = balance s"
    using canonical_roundtrip [OF assms(2)] by blast
  have "apply_tx tx s =
      Inr (\<lparr> sender = s\<lparr>balance := BigNum_toString (n - BaseTransaction.fee tx)\<rparr> \<rparr>, tx\<lparr>applied := True\<rparr>)"
    using assms(1) n(1) by (simp add: apply_tx_def)
  then show ?thesis
    using n(2) by (simp add: undoAfterApply_def undo_def BigNum_new_toString)
qed

theorem undo_apply_restores_witness:
  "\<not> applied exampleTransaction \<and> canonicalDecimal (balance exampleSender)
   \<and> withinRange (BaseTransaction.fee exampleTransaction)
   \<and> undoAfterApply exampleTransaction exampleSender =
       Inr (\<lparr> sender = exampleSender \<rparr>, exampleTransaction\<lparr>applied := True\<rparr>)
   \<and> canonicalDecimal (balance (exampleSender\<lparr>balance := ''1.000000000000000000005e+21''\<rparr>))
   \<and> undoAfterApply exampleTransaction
         (exampleSender\<lparr>balance := ''1.000000000000000000005e+21''\<rparr>) =
       Inr (\<lparr> sender = exampleSender\<lparr>balance := ''1.000000000000000000005e+21''\<rparr> \<rparr>,
            exampleTransaction\<lparr>applied := True\<rparr>)"
proof -
  have a: "\<not> applied exampleTransaction"
    by (simp add: exampleTransaction_def)
  have b: "canonicalDecimal (balance exampleSender)"
    by (simp add: exampleSender_def canonicalDecimal_def example_balances withinRange_small)
  have c: "canonicalDecimal (balance (exampleSender\<lparr>balance := ''1.000000000000000000005e+21''\<rparr>))"
    by (simp add: canonicalDecimal_def large_balances withinRange_small)
  have f: "withinRange (BaseTransaction.fee exampleTransaction)"
    by (simp add: exampleTransaction_def withinRange_small)
  show ?thesis
    using a b c f undo_apply_restores [OF a b f] undo_apply_restores [OF a c f] by simp
qed

subsection \<open>C2: apply is idempotent\<close>

text \<open>
  C2: the first \<^verbatim>\<open>apply\<close> (flag not set) subtracts the fee from the balance of
  the account and sets the flag; whenever \<^verbatim>\<open>apply\<close> has returned, the flag is set and every
  later \<^verbatim>\<open>apply\<close> returns the account it is given, unchanged; so applying twice gives what
  applying once gives.
\<close>

theorem apply_idempotent:
  "(\<not> applied tx \<longrightarrow> BigNum_new (balance s) = Inr b \<longrightarrow>
      apply_tx tx s =
        Inr (\<lparr> sender = s\<lparr>balance := BigNum_toString (b - BaseTransaction.fee tx)\<rparr> \<rparr>,
             tx\<lparr>applied := True\<rparr>))
   \<and> (apply_tx tx s = Inr (r, tx') \<longrightarrow>
        applied tx' \<and> (\<forall>a. apply_tx tx' a = Inr (\<lparr> sender = a \<rparr>, tx')))
   \<and> applyTwice tx s = apply_tx tx s"
  by (auto simp: apply_tx_def applyTwice_def split: sum.splits)

theorem apply_idempotent_witness:
  "\<not> applied exampleTransaction \<and> BigNum_new (balance exampleSender) = Inr 100 \<and>
   apply_tx exampleTransaction exampleSender =
     Inr (\<lparr> sender = exampleSender\<lparr>balance := ''90''\<rparr> \<rparr>, exampleTransaction\<lparr>applied := True\<rparr>)
   \<and> apply_tx (exampleTransaction\<lparr>applied := True\<rparr>) (exampleSender\<lparr>balance := ''90''\<rparr>) =
     Inr (\<lparr> sender = exampleSender\<lparr>balance := ''90''\<rparr> \<rparr>, exampleTransaction\<lparr>applied := True\<rparr>)"
proof -
  have a: "\<not> applied exampleTransaction"
    by (simp add: exampleTransaction_def)
  have b: "BigNum_new (balance exampleSender) = Inr 100"
    by (simp add: exampleSender_def example_balances)
  have f: "BigNum_toString (100 - BaseTransaction.fee exampleTransaction) = ''90''"
    by (simp add: exampleTransaction_def example_balances)
  note t = apply_idempotent [of exampleTransaction exampleSender 100
      "\<lparr> sender = exampleSender\<lparr>balance := ''90''\<rparr> \<rparr>" "exampleTransaction\<lparr>applied := True\<rparr>"]
  from t a b f have 1: "apply_tx exampleTransaction exampleSender =
     Inr (\<lparr> sender = exampleSender\<lparr>balance := ''90''\<rparr> \<rparr>, exampleTransaction\<lparr>applied := True\<rparr>)"
    by simp
  with t have "\<forall>a. apply_tx (exampleTransaction\<lparr>applied := True\<rparr>) a =
      Inr (\<lparr> sender = a \<rparr>, exampleTransaction\<lparr>applied := True\<rparr>)"
    by blast
  with a b 1 show ?thesis by simp
qed

subsection \<open>C10: the flag is never reset\<close>

lemma perform_applied_id: "applied tx \<Longrightarrow> perform c tx = tx"
  by (cases c) (auto simp: apply_tx_def undo_def split: sum.splits)

lemma performAll_applied_id: "applied tx \<Longrightarrow> performAll calls tx = tx"
  unfolding performAll_def by (induction calls) (simp_all add: perform_applied_id)

text \<open>
  C10: \<^verbatim>\<open>apply\<close> returns with the flag \<open>applied\<close> set, and once it is set no sequence of
  \<^verbatim>\<open>apply\<close> and \<^verbatim>\<open>undo\<close> calls resets it. After any such sequence (an \<^verbatim>\<open>undo\<close> in
  particular) every \<^verbatim>\<open>apply\<close> returns its argument unchanged and every \<^verbatim>\<open>undo\<close> adds the
  fee to the balance of its argument again.
\<close>

theorem applied_monotone:
  "(apply_tx tx0 s = Inr (r, tx) \<longrightarrow> applied tx)
   \<and> (applied tx \<longrightarrow>
        applied (performAll calls tx)
        \<and> apply_tx (performAll calls tx) a = Inr (\<lparr> sender = a \<rparr>, performAll calls tx)
        \<and> (BigNum_new (balance a) = Inr b \<longrightarrow>
             undo (performAll calls tx) a =
               Inr (\<lparr> sender = a\<lparr>balance := BigNum_toString (b + BaseTransaction.fee tx)\<rparr> \<rparr>,
                    performAll calls tx)))"
  by (auto simp: performAll_applied_id apply_tx_def undo_def split: sum.splits)

theorem applied_monotone_witness:
  "apply_tx exampleTransaction exampleSender =
     Inr (\<lparr> sender = exampleSender\<lparr>balance := ''90''\<rparr> \<rparr>, exampleTransaction\<lparr>applied := True\<rparr>)
   \<and> applied (exampleTransaction\<lparr>applied := True\<rparr>)
   \<and> BigNum_new (balance exampleSender) = Inr 100
   \<and> applied (performAll [Undo (exampleSender\<lparr>balance := ''90''\<rparr>)] (exampleTransaction\<lparr>applied := True\<rparr>))
   \<and> undo (performAll [Undo (exampleSender\<lparr>balance := ''90''\<rparr>)] (exampleTransaction\<lparr>applied := True\<rparr>))
         exampleSender =
       Inr (\<lparr> sender = exampleSender\<lparr>balance := ''110''\<rparr> \<rparr>,
            performAll [Undo (exampleSender\<lparr>balance := ''90''\<rparr>)] (exampleTransaction\<lparr>applied := True\<rparr>))"
proof -
  have 1: "apply_tx exampleTransaction exampleSender =
     Inr (\<lparr> sender = exampleSender\<lparr>balance := ''90''\<rparr> \<rparr>, exampleTransaction\<lparr>applied := True\<rparr>)"
    by (simp add: apply_tx_def exampleTransaction_def exampleSender_def example_balances)
  have 2: "BigNum_new (balance exampleSender) = Inr 100"
    by (simp add: exampleSender_def example_balances)
  have 3: "BigNum_toString (100 + BaseTransaction.fee (exampleTransaction\<lparr>applied := True\<rparr>)) = ''110''"
    by (simp add: exampleTransaction_def example_balances)
  note t = applied_monotone [of exampleTransaction exampleSender
      "\<lparr> sender = exampleSender\<lparr>balance := ''90''\<rparr> \<rparr>" "exampleTransaction\<lparr>applied := True\<rparr>"
      "[Undo (exampleSender\<lparr>balance := ''90''\<rparr>)]" exampleSender 100]
  from t 1 have a: "applied (exampleTransaction\<lparr>applied := True\<rparr>)"
    by blast
  with t 2 3 1 show ?thesis
    by simp
qed

subsection \<open>C7: what validate reports\<close>

text \<open>
  Claim C7 says that \<^verbatim>\<open>validate\<close> returns all failures together. On a transaction that
  violates the schema and has no signature, the only error returned is the missing
  signature; the schema error is dropped.
\<close>

theorem validate_counterexample:
  "validate exampleTypes failingSchema (\<lambda>json. Inr False) exampleTransaction =
     Inr \<lparr> validated = False,
           errors = Some [TransactionError ''Cannot validate transaction without signature.'' None] \<rparr>
   \<and> failingSchema (toJSON exampleTransaction) = Inr (False, Some [exampleSchemaError])
   \<and> schemaError exampleSchemaError
        \<notin> set [TransactionError ''Cannot validate transaction without signature.'' None]"
  by (simp add: validate_def toJSON_def exampleTypes_def exampleTransaction_def failingSchema_def
      truthy_def schemaError_def exampleSchemaError_def)

text \<open>The fields of the transaction that \<^verbatim>\<open>validate\<close> looks at, as \<^verbatim>\<open>toJSON\<close> gives them.\<close>

lemma toJSON_type: "TransactionJSON.type (toJSON tx) = BaseTransaction.type tx"
  by (simp add: toJSON_def Let_def)

lemma toJSON_truthy_signature:
  "truthy (TransactionJSON.signature (toJSON tx)) = truthy (BaseTransaction.signature tx)"
  by (simp add: toJSON_def Let_def truthy_def)

text \<open>
  C7 (as amended): \<^verbatim>\<open>validate\<close> is a fail-fast call and it may throw. An unrecognised type
  gives that one error, and neither the schema validator nor the signature check is asked.
  On a recognised type the schema validator is asked first, and what it throws is thrown by
  \<^verbatim>\<open>validate\<close>. A transaction without a primary signature then gives the
  missing-signature error alone, whatever the schema validator has reported, and the
  signature check is not asked. Otherwise the signature check is asked: what it throws is
  thrown by \<^verbatim>\<open>validate\<close>, and what it returns is joined with the verdict of the schema
  into \<open>validated\<close>, the errors being those of the schema only (a signature that does not
  verify adds none). So the error list of a report is never a mixture, and \<^verbatim>\<open>validate\<close>
  throws exactly when one of the two functions it asks throws.
\<close>

theorem validate_report:
  "(BaseTransaction.type tx \<notin> set types \<longrightarrow>
      validate types schema verify tx =
        Inr \<lparr> validated = False,
              errors = Some [TransactionError ''Invalid transaction type.'' None] \<rparr>)
   \<and> (BaseTransaction.type tx \<in> set types \<longrightarrow> schema (toJSON tx) = Inl e \<longrightarrow>
        validate types schema verify tx = Inl e)
   \<and> (BaseTransaction.type tx \<in> set types \<longrightarrow> schema (toJSON tx) = Inr (valid, errs) \<longrightarrow>
        \<not> truthy (BaseTransaction.signature tx) \<longrightarrow>
        validate types schema verify tx =
          Inr \<lparr> validated = False,
                errors =
                  Some [TransactionError ''Cannot validate transaction without signature.'' None] \<rparr>)
   \<and> (BaseTransaction.type tx \<in> set types \<longrightarrow> schema (toJSON tx) = Inr (valid, errs) \<longrightarrow>
        truthy (BaseTransaction.signature tx) \<longrightarrow> verify (toJSON tx) = Inl e \<longrightarrow>
        validate types schema verify tx = Inl e)
   \<and> (BaseTransaction.type tx \<in> set types \<longrightarrow> schema (toJSON tx) = Inr (valid, errs) \<longrightarrow>
        truthy (BaseTransaction.signature tx) \<longrightarrow> verify (toJSON tx) = Inr verified \<longrightarrow>
        validate types schema verify tx =
          Inr \<lparr> validated = (valid \<and> verified),
                errors = map_option (map schemaError) errs \<rparr>)
   \<and> (validate types schema verify tx = Inr report \<longrightarrow>
        errors report = Some [TransactionError ''Invalid transaction type.'' None]
        \<or> errors report =
            Some [TransactionError ''Cannot validate transaction without signature.'' None]
        \<or> (\<exists>v. schema (toJSON tx) = Inr (v, None) \<and> errors report = None)
        \<or> (\<exists>v es. schema (toJSON tx) = Inr (v, Some es)
               \<and> errors report = Some (map schemaError es)))
   \<and> ((validate types schema verify tx = Inl e) =
        (BaseTransaction.type tx \<in> set types
         \<and> (schema (toJSON tx) = Inl e
              \<or> (\<exists>p. schema (toJSON tx) = Inr p) \<and> truthy (BaseTransaction.signature tx)
                 \<and> verify (toJSON tx) = Inl e)))"
proof -
  let ?json = "toJSON tx"
  have ty: "TransactionJSON.type ?json = BaseTransaction.type tx"
    by (rule toJSON_type)
  have sg: "truthy (TransactionJSON.signature ?json) = truthy (BaseTransaction.signature tx)"
    by (rule toJSON_truthy_signature)
  have 1: "BaseTransaction.type tx \<notin> set types \<longrightarrow>
      validate types schema verify tx =
        Inr \<lparr> validated = False,
              errors = Some [TransactionError ''Invalid transaction type.'' None] \<rparr>"
    by (simp add: validate_def Let_def ty)
  have 2: "BaseTransaction.type tx \<in> set types \<longrightarrow> schema ?json = Inl e \<longrightarrow>
      validate types schema verify tx = Inl e"
    by (simp add: validate_def Let_def ty)
  have 3: "BaseTransaction.type tx \<in> set types \<longrightarrow> schema ?json = Inr (valid, errs) \<longrightarrow>
      \<not> truthy (BaseTransaction.signature tx) \<longrightarrow>
      validate types schema verify tx =
        Inr \<lparr> validated = False,
              errors =
                Some [TransactionError ''Cannot validate transaction without signature.'' None] \<rparr>"
    by (simp add: validate_def Let_def ty sg)
  have 4: "BaseTransaction.type tx \<in> set types \<longrightarrow> schema ?json = Inr (valid, errs) \<longrightarrow>
      truthy (BaseTransaction.signature tx) \<longrightarrow> verify ?json = Inl e \<longrightarrow>
      validate types schema verify tx = Inl e"
    by (simp add: validate_def Let_def ty sg)
  have 5: "BaseTransaction.type tx \<in> set types \<longrightarrow> schema ?json = Inr (valid, errs) \<longrightarrow>
      truthy (BaseTransaction.signature tx) \<longrightarrow> verify ?json = Inr verified \<longrightarrow>
      validate types schema verify tx =
        Inr \<lparr> validated = (valid \<and> verified), errors = map_option (map schemaError) errs \<rparr>"
    by (simp add: validate_def Let_def ty sg)
  have 6: "validate types schema verify tx = Inr report \<longrightarrow>
      errors report = Some [TransactionError ''Invalid transaction type.'' None]
      \<or> errors report =
          Some [TransactionError ''Cannot validate transaction without signature.'' None]
      \<or> (\<exists>v. schema ?json = Inr (v, None) \<and> errors report = None)
      \<or> (\<exists>v es. schema ?json = Inr (v, Some es) \<and> errors report = Some (map schemaError es))"
    by (auto simp: validate_def Let_def ty sg split: if_splits sum.splits prod.splits
        option.splits)
  have 7: "(validate types schema verify tx = Inl e) =
      (BaseTransaction.type tx \<in> set types
       \<and> (schema ?json = Inl e
            \<or> (\<exists>p. schema ?json = Inr p) \<and> truthy (BaseTransaction.signature tx)
               \<and> verify ?json = Inl e))"
    by (auto simp: validate_def Let_def ty sg split: if_splits sum.splits prod.splits)
  show ?thesis
    using 1 2 3 4 5 6 7 by blast
qed

theorem validate_report_witness:
  "BaseTransaction.type exampleTransaction \<in> set exampleTypes
   \<and> \<not> truthy (BaseTransaction.signature exampleTransaction)
   \<and> truthy (BaseTransaction.signature (exampleTransaction\<lparr>BaseTransaction.signature := Some ''00''\<rparr>))
   \<and> BaseTransaction.type (exampleTransaction\<lparr>BaseTransaction.type := 9\<rparr>) \<notin> set exampleTypes
   \<and> validate exampleTypes failingSchema (\<lambda>json. Inl TypeError) exampleTransaction =
       Inr \<lparr> validated = False,
             errors =
               Some [TransactionError ''Cannot validate transaction without signature.'' None] \<rparr>
   \<and> validate exampleTypes failingSchema (\<lambda>json. Inr False)
         (exampleTransaction\<lparr>BaseTransaction.signature := Some ''00''\<rparr>) =
       Inr \<lparr> validated = False, errors = Some [schemaError exampleSchemaError] \<rparr>
   \<and> validate exampleTypes failingSchema (\<lambda>json. Inl TypeError)
         (exampleTransaction\<lparr>BaseTransaction.signature := Some ''00''\<rparr>) = Inl TypeError
   \<and> validate exampleTypes (\<lambda>json. Inl RangeError) (\<lambda>json. Inr True) exampleTransaction =
       Inl RangeError
   \<and> validate exampleTypes (\<lambda>json. Inl RangeError) (\<lambda>json. Inl TypeError)
         (exampleTransaction\<lparr>BaseTransaction.type := 9\<rparr>) =
       Inr \<lparr> validated = False,
             errors = Some [TransactionError ''Invalid transaction type.'' None] \<rparr>"
proof -
  let ?signed = "exampleTransaction\<lparr>BaseTransaction.signature := Some ''00''\<rparr>"
  let ?other = "exampleTransaction\<lparr>BaseTransaction.type := 9\<rparr>"
  have a: "BaseTransaction.type exampleTransaction \<in> set exampleTypes"
    by (simp add: exampleTransaction_def exampleTypes_def)
  have b: "\<not> truthy (BaseTransaction.signature exampleTransaction)"
    by (simp add: exampleTransaction_def truthy_def)
  have c: "truthy (BaseTransaction.signature ?signed)"
    by (simp add: truthy_def)
  have d: "BaseTransaction.type ?other \<notin> set exampleTypes"
    by (simp add: exampleTypes_def)
  have a': "BaseTransaction.type ?signed \<in> set exampleTypes"
    using a by simp
  have f: "\<And>tx. failingSchema (toJSON tx) = Inr (False, Some [exampleSchemaError])"
    by (simp add: failingSchema_def)
  note t1 = validate_report [of exampleTransaction exampleTypes failingSchema
      "\<lambda>json. Inl TypeError" TypeError False "Some [exampleSchemaError]"]
  note t2 = validate_report [of ?signed exampleTypes failingSchema "\<lambda>json. Inr False"
      TypeError False "Some [exampleSchemaError]" False]
  note t3 = validate_report [of ?signed exampleTypes failingSchema "\<lambda>json. Inl TypeError"
      TypeError False "Some [exampleSchemaError]"]
  note t4 = validate_report [of exampleTransaction exampleTypes "\<lambda>json. Inl RangeError"
      "\<lambda>json. Inr True" RangeError]
  note t5 = validate_report [of ?other exampleTypes "\<lambda>json. Inl RangeError"
      "\<lambda>json. Inl TypeError"]
  have 1: "validate exampleTypes failingSchema (\<lambda>json. Inl TypeError) exampleTransaction =
       Inr \<lparr> validated = False,
             errors =
               Some [TransactionError ''Cannot validate transaction without signature.'' None] \<rparr>"
    using t1 a b f by blast
  have 2: "validate exampleTypes failingSchema (\<lambda>json. Inr False) ?signed =
       Inr \<lparr> validated = False, errors = Some [schemaError exampleSchemaError] \<rparr>"
    using t2 a' c f by simp
  have 3: "validate exampleTypes failingSchema (\<lambda>json. Inl TypeError) ?signed = Inl TypeError"
    using t3 a' c f by blast
  have 4: "validate exampleTypes (\<lambda>json. Inl RangeError) (\<lambda>json. Inr True) exampleTransaction =
       Inl RangeError"
    using t4 a by blast
  have 5: "validate exampleTypes (\<lambda>json. Inl RangeError) (\<lambda>json. Inl TypeError) ?other =
       Inr \<lparr> validated = False,
             errors = Some [TransactionError ''Invalid transaction type.'' None] \<rparr>"
    using t5 d by blast
  show ?thesis
    using a b c d 1 2 3 4 5 by blast
qed

subsection \<open>C3: the signable bytes\<close>

lemma length_leBytes: "length (leBytes k v) = k"
  by (induction k arbitrary: v) simp_all

lemma leValue_leBytes: "leValue (leBytes k v) = v mod 256 ^ k"
proof (induction k arbitrary: v)
  case 0
  then show ?case by simp
next
  case (Suc k)
  have "unat (of_nat (v mod 256) :: byte) = v mod 256"
    by (simp add: unat_of_nat)
  then have "leValue (leBytes (Suc k) v) = v mod 256 + 256 * ((v div 256) mod 256 ^ k)"
    using Suc.IH [of "v div 256"] by simp
  also have "\<dots> = v mod (256 * 256 ^ k)"
    by (simp add: mod_mult2_eq)
  finally show ?case by simp
qed

lemma toWords_single: "v < 256 ^ sz \<Longrightarrow> toWords sz v = [v]"
  by (subst toWords.simps) simp

lemma wordValue_wordBytes: "v < 256 ^ sz \<Longrightarrow> wordValue e (wordBytes e sz v) = v"
  by (cases e) (simp_all add: wordValue_def wordBytes_def leValue_leBytes)

lemma BigNum_toBuffer_word:
  assumes "0 \<le> n" and "n < 2 ^ 64"
  shows "BigNum_toBuffer e 8 n = Inr (wordBytes e 8 (nat n))"
proof -
  have "nat n < 256 ^ 8"
    using assms by (simp add: nat_less_iff)
  then have "toWords 8 (nat n) = [nat n]"
    by (rule toWords_single)
  then show ?thesis
    using assms(1) by (simp add: BigNum_toBuffer_def del: toWords.simps)
qed

lemma length_wordBytes: "length (wordBytes e sz v) = sz"
  by (cases e) (simp_all add: wordBytes_def length_leBytes)

lemma hexPairs_length: "hexPairs s = Some bs \<Longrightarrow> length s = 2 * length bs"
  by (induction s arbitrary: bs rule: hexPairs.induct) (auto split: option.splits)

lemma hexToBuffer_length: "hexToBuffer s = Inr bs \<Longrightarrow> length s = 2 * length bs"
  by (auto simp: hexToBuffer_def hexPairs_length split: option.splits)

lemma writeIntLE_4:
  assumes "- (2 ^ 31) \<le> v" and "v < 2 ^ 31"
  shows "writeIntLE v 4 = Inr (leBytes 4 (nat (v mod 2 ^ 32)))"
  using assms by (simp add: writeIntLE_def)

lemma toJSON_signature:
  "TransactionJSON.signature (toJSON tx) =
     (if truthy (BaseTransaction.signature tx) then BaseTransaction.signature tx else None)"
  by (simp add: toJSON_def Let_def)

lemma toJSON_signSignature:
  "TransactionJSON.signSignature (toJSON tx) =
     (if truthy (BaseTransaction.signature tx) \<and> truthy (BaseTransaction.signSignature tx)
      then BaseTransaction.signSignature tx else None)"
  by (simp add: toJSON_def Let_def)

lemma truthy_None: "\<not> truthy None"
  by (simp add: truthy_def)

lemma getBytes_fee_applied:
  "getBytes e (tx\<lparr>BaseTransaction.fee := f, applied := b\<rparr>) = getBytes e tx"
  by (simp add: getBytes_def toJSON_signature toJSON_signSignature Let_def cong: sum.case_cong)

lemma leBytes_numeral:
  "leBytes (numeral k) v = of_nat (v mod 256) # leBytes (pred_numeral k) (v div 256)"
proof -
  have "numeral k = Suc (pred_numeral k)"
    by (rule numeral_eq_Suc)
  then show ?thesis
    by (simp only: leBytes.simps)
qed

lemma example_hex:
  "hexToBuffer ''c094ebee7ec0c50ebee32918655e089f6e1a604b83bcaa760293c61e0f18ab6f'' =
     Inr examplePublicKeyBytes"
  by (simp add: hexToBuffer_def hexDigit_def examplePublicKeyBytes_def)

lemma example_stamp: "writeIntLE 38350076 4 = Inr [252, 44, 73, 2]"
  by (simp add: writeIntLE_def leBytes_numeral)

lemma example_recipient: "bigNumberToBuffer Big ''2'' 8 = Inr [0, 0, 0, 0, 0, 0, 0, 2]"
  by (simp add: bigNumberToBuffer_def BigNum_new_digits digitValue_def BigNum_toBuffer_def
      wordBytes_def leBytes_numeral)

lemma example_amount: "BigNum_toBuffer Little 8 500 = Inr [244, 1, 0, 0, 0, 0, 0, 0]"
  by (simp add: BigNum_toBuffer_def wordBytes_def leBytes_numeral)

text \<open>
  Claim C3 gives the layout for every transaction, with the secondary signature bytes empty
  only if that signature is absent. \<^verbatim>\<open>getBytes\<close> takes both signatures from \<^verbatim>\<open>toJSON\<close>,
  which leaves the second signature out when there is no first one: a transaction with
  \<^verbatim>\<open>signSignature\<close> \<open>ab\<close> and no \<^verbatim>\<open>signature\<close> gives 53 bytes, without the byte 171.
\<close>

theorem getBytes_counterexample:
  "BaseTransaction.signSignature secondSignedOnly = Some ''ab''
   \<and> hexToBuffer ''ab'' = Inr [171]
   \<and> getBytes Big secondSignedOnly =
       Inr ([0] @ [252, 44, 73, 2] @ examplePublicKeyBytes @ [0, 0, 0, 0, 0, 0, 0, 2]
            @ [244, 1, 0, 0, 0, 0, 0, 0] @ [] @ [])
   \<and> getBytes Big secondSignedOnly \<noteq>
       Inr ([0] @ [252, 44, 73, 2] @ examplePublicKeyBytes @ [0, 0, 0, 0, 0, 0, 0, 2]
            @ [244, 1, 0, 0, 0, 0, 0, 0] @ [] @ [171])"
proof -
  have g: "getBytes Big secondSignedOnly =
       Inr ([0] @ [252, 44, 73, 2] @ examplePublicKeyBytes @ [0, 0, 0, 0, 0, 0, 0, 2]
            @ [244, 1, 0, 0, 0, 0, 0, 0] @ [] @ [])"
    by (simp add: getBytes_def toJSON_signature toJSON_signSignature secondSignedOnly_def
        exampleTransaction_def truthy_def example_hex example_stamp example_recipient
        example_amount BYTESIZES_TYPE_def BYTESIZES_TIMESTAMP_def BYTESIZES_RECIPIENT_ID_def
        BYTESIZES_AMOUNT_def Buffer_alloc_def)
  have h: "hexToBuffer ''ab'' = Inr [171]"
    by (simp add: hexToBuffer_def hexDigit_def)
  show ?thesis
    unfolding g using h by (simp add: secondSignedOnly_def)
qed

text \<open>
  C3 (as amended): for a transaction whose timestamp fits a signed 32-bit integer, whose
  sender public key is 64 hexadecimal digits, whose amount and recipient numeral are in
  \<open>[0, 2^64)\<close> and whose signatures are hexadecimal, \<^verbatim>\<open>getBytes\<close> returns the
  concatenation of: 1 byte of type, 4 bytes of timestamp (little-endian, two's complement),
  the 32 bytes of the sender public key, 8 bytes of recipient identifier (the numeral of the
  address, or zeros when there is no recipient), 8 bytes of amount (little-endian), the
  bytes of the primary signature (none if absent) and the bytes of the secondary signature
  (none if it is absent or if the primary signature is absent). The fee and the flag
  \<open>applied\<close> do not contribute; \<^verbatim>\<open>getBytes\<close> writes nothing, so two calls give the same
  bytes.
\<close>

theorem getBytes_layout:
  assumes ts: "- (2 ^ 31) \<le> BaseTransaction.timestamp tx" "BaseTransaction.timestamp tx < 2 ^ 31"
    and pk: "hexToBuffer (BaseTransaction.senderPublicKey tx) = Inr pk"
            "length (BaseTransaction.senderPublicKey tx) = 64"
    and rid: "truthy (BaseTransaction.recipientId tx) \<longrightarrow>
                BigNum_new (butlast (the (BaseTransaction.recipientId tx))) = Inr n \<and> 0 \<le> n \<and> n < 2 ^ 64"
    and amt: "0 \<le> BaseTransaction.amount tx" "BaseTransaction.amount tx < 2 ^ 64"
    and sg: "optionalHex (BaseTransaction.signature tx) = Inr sg"
    and sg2: "optionalHex (if truthy (BaseTransaction.signature tx)
                           then BaseTransaction.signSignature tx else None) = Inr sg2"
  shows "\<exists>stamp recipient amountBytes.
           getBytes e tx =
             Inr ([word_of_int (BaseTransaction.type tx)] @ stamp @ pk @ recipient @ amountBytes @ sg @ sg2)
           \<and> length stamp = 4
           \<and> int (leValue stamp) = BaseTransaction.timestamp tx mod 2 ^ 32
           \<and> length pk = 32
           \<and> length recipient = 8
           \<and> (if truthy (BaseTransaction.recipientId tx) then int (wordValue e recipient) = n
               else recipient = replicate 8 0)
           \<and> length amountBytes = 8
           \<and> int (leValue amountBytes) = BaseTransaction.amount tx
           \<and> (\<forall>f b. getBytes e (tx\<lparr>BaseTransaction.fee := f, applied := b\<rparr>) = getBytes e tx)"
proof -
  define stamp where "stamp = leBytes 4 (nat (BaseTransaction.timestamp tx mod 2 ^ 32))"
  define recipient where "recipient =
    (if truthy (BaseTransaction.recipientId tx) then wordBytes e 8 (nat n) else replicate 8 (0::byte))"
  define amountBytes where "amountBytes = leBytes 8 (nat (BaseTransaction.amount tx))"
  have w: "writeIntLE (BaseTransaction.timestamp tx) BYTESIZES_TIMESTAMP = Inr stamp"
    using writeIntLE_4 [OF ts] by (simp add: BYTESIZES_TIMESTAMP_def stamp_def)
  have r: "(if truthy (BaseTransaction.recipientId tx)
            then bigNumberToBuffer e (butlast (the (BaseTransaction.recipientId tx))) BYTESIZES_RECIPIENT_ID
            else Inr (Buffer_alloc BYTESIZES_RECIPIENT_ID 0)) = Inr recipient"
    using rid
    by (simp add: recipient_def BYTESIZES_RECIPIENT_ID_def Buffer_alloc_def bigNumberToBuffer_def
        BigNum_toBuffer_word)
  have a: "BigNum_toBuffer Little BYTESIZES_AMOUNT (BaseTransaction.amount tx) = Inr amountBytes"
    using BigNum_toBuffer_word [OF amt, of Little]
    by (simp add: BYTESIZES_AMOUNT_def amountBytes_def wordBytes_def)
  have s1: "(if truthy (TransactionJSON.signature (toJSON tx))
             then hexToBuffer (the (TransactionJSON.signature (toJSON tx)))
             else Inr (Buffer_alloc 0 0)) = Inr sg"
    using sg by (auto simp: toJSON_signature optionalHex_def truthy_None Buffer_alloc_def split: if_splits)
  have s2: "(if truthy (TransactionJSON.signSignature (toJSON tx))
             then hexToBuffer (the (TransactionJSON.signSignature (toJSON tx)))
             else Inr (Buffer_alloc 0 0)) = Inr sg2"
    using sg2 by (auto simp: toJSON_signSignature optionalHex_def truthy_None Buffer_alloc_def split: if_splits)
  have g: "getBytes e tx =
      Inr ([word_of_int (BaseTransaction.type tx)] @ stamp @ pk @ recipient @ amountBytes @ sg @ sg2)"
    unfolding getBytes_def Let_def w pk(1) r a s1 s2
    by (simp add: BYTESIZES_TYPE_def Buffer_alloc_def)
  have l1: "length stamp = 4"
    by (simp add: stamp_def length_leBytes)
  have "nat (BaseTransaction.timestamp tx mod 2 ^ 32) < 256 ^ 4"
    by (simp add: nat_less_iff)
  then have v1: "int (leValue stamp) = BaseTransaction.timestamp tx mod 2 ^ 32"
    by (simp add: stamp_def leValue_leBytes)
  have l2: "length pk = 32"
    using hexToBuffer_length [OF pk(1)] pk(2) by simp
  have l3: "length recipient = 8"
    by (simp add: recipient_def length_wordBytes)
  have v3: "if truthy (BaseTransaction.recipientId tx) then int (wordValue e recipient) = n
            else recipient = replicate 8 0"
  proof (cases "truthy (BaseTransaction.recipientId tx)")
    case True
    then have "0 \<le> n" "n < 2 ^ 64" using rid by simp_all
    then have "nat n < 256 ^ 8" by (simp add: nat_less_iff)
    then show ?thesis
      using True \<open>0 \<le> n\<close> by (simp add: recipient_def wordValue_wordBytes)
  next
    case False
    then show ?thesis by (simp add: recipient_def)
  qed
  have l4: "length amountBytes = 8"
    by (simp add: amountBytes_def length_leBytes)
  have "nat (BaseTransaction.amount tx) < 256 ^ 8"
    using amt by (simp add: nat_less_iff)
  then have v4: "int (leValue amountBytes) = BaseTransaction.amount tx"
    using amt(1) by (simp add: amountBytes_def leValue_leBytes)
  show ?thesis
    using g l1 v1 l2 l3 v3 l4 v4 getBytes_fee_applied by blast
qed

theorem getBytes_layout_witness:
  "\<exists>stamp recipient amountBytes.
     getBytes Big signedTwice =
       Inr ([0] @ stamp @ examplePublicKeyBytes @ recipient @ amountBytes @ [10, 11] @ [171])
     \<and> length stamp = 4 \<and> int (leValue stamp) = 38350076
     \<and> length examplePublicKeyBytes = 32
     \<and> length recipient = 8 \<and> int (wordValue Big recipient) = 2
     \<and> length amountBytes = 8 \<and> int (leValue amountBytes) = 500"
proof -
  have ts: "- (2 ^ 31) \<le> BaseTransaction.timestamp signedTwice"
    "BaseTransaction.timestamp signedTwice < 2 ^ 31"
    by (simp_all add: signedTwice_def exampleTransaction_def)
  have pk: "hexToBuffer (BaseTransaction.senderPublicKey signedTwice) = Inr examplePublicKeyBytes"
    "length (BaseTransaction.senderPublicKey signedTwice) = 64"
    by (simp_all add: signedTwice_def exampleTransaction_def example_hex)
  have tr: "truthy (BaseTransaction.recipientId signedTwice)"
    by (simp add: signedTwice_def exampleTransaction_def truthy_def)
  have rid: "truthy (BaseTransaction.recipientId signedTwice) \<longrightarrow>
      BigNum_new (butlast (the (BaseTransaction.recipientId signedTwice))) = Inr 2
      \<and> (0::int) \<le> 2 \<and> (2::int) < 2 ^ 64"
    by (simp add: signedTwice_def exampleTransaction_def BigNum_new_digits digitValue_def)
  have amt: "0 \<le> BaseTransaction.amount signedTwice" "BaseTransaction.amount signedTwice < 2 ^ 64"
    by (simp_all add: signedTwice_def exampleTransaction_def)
  have sg: "optionalHex (BaseTransaction.signature signedTwice) = Inr [10, 11]"
    by (simp add: optionalHex_def signedTwice_def truthy_def hexToBuffer_def hexDigit_def)
  have sg2: "optionalHex (if truthy (BaseTransaction.signature signedTwice)
        then BaseTransaction.signSignature signedTwice else None) = Inr [171]"
    by (simp add: optionalHex_def signedTwice_def truthy_def hexToBuffer_def hexDigit_def)
  have ty: "BaseTransaction.type signedTwice = 0"
       "BaseTransaction.timestamp signedTwice mod 2 ^ 32 = 38350076"
       "BaseTransaction.amount signedTwice = 500"
    by (simp_all add: signedTwice_def exampleTransaction_def)
  show ?thesis
    using getBytes_layout [OF ts pk rid amt sg sg2, of Big] tr ty
    by auto
qed

section \<open>The vote ledger\<close>

subsection \<open>Executions\<close>

lemma accounts_updateCandidateKey [simp]:
  "accounts (updateCandidateKey s ow nw a pk) = accounts s"
  by (simp add: updateCandidateKey_def replace_CANDIDATE_def Let_def)

lemma accounts_set [simp]:
  "accounts (set_ADDRESS_ACCOUNT s k v) = (accounts s)(k \<mapsto> v)"
  by (simp add: set_ADDRESS_ACCOUNT_def)

lemma invariant_start:
  "\<forall>cb \<in> set cbs. phase cb = Pending \<Longrightarrow> invariant st cbs \<lparr> current = st, callbacks = cbs \<rparr>"
  by (simp add: invariant_def phaseOk_def)

lemma distinct_targets:
  assumes "distinct (map target cbs)" "i < length cbs" "j < length cbs" "i \<noteq> j"
  shows "target (cbs ! i) \<noteq> target (cbs ! j)"
  using assms by (metis length_map nth_eq_iff_index_eq nth_map)

lemma invariant_update:
  assumes inv: "invariant st cbs c" and d: "distinct (map target cbs)" and i: "i < length cbs"
    and cs: "callbacks c' = (callbacks c)[i := (callbacks c ! i)\<lparr>phase := p\<rparr>]"
    and acc: "\<And>x. x \<noteq> target (cbs ! i) \<Longrightarrow> accounts (current c') x = accounts (current c) x"
    and ok: "phaseOk st (cbs ! i) p (accounts (current c') (target (cbs ! i)))"
  shows "invariant st cbs c'"
proof -
  have len: "length (callbacks c) = length cbs"
    using inv by (simp add: invariant_def)
  have old: "\<And>j. j < length cbs \<Longrightarrow>
      target (callbacks c ! j) = target (cbs ! j)
      \<and> change (callbacks c ! j) = change (cbs ! j)
      \<and> phaseOk st (cbs ! j) (phase (callbacks c ! j)) (accounts (current c) (target (cbs ! j)))"
    using inv by (simp add: invariant_def)
  have rest: "\<And>x. x \<notin> set (map target cbs) \<Longrightarrow> accounts (current c) x = accounts st x"
    using inv by (simp add: invariant_def)
  have mem: "target (cbs ! i) \<in> set (map target cbs)"
    using i by (metis length_map nth_map nth_mem)
  have 1: "length (callbacks c') = length cbs"
    using cs len by simp
  have 2: "target (callbacks c' ! j) = target (cbs ! j)
      \<and> change (callbacks c' ! j) = change (cbs ! j)
      \<and> phaseOk st (cbs ! j) (phase (callbacks c' ! j)) (accounts (current c') (target (cbs ! j)))"
    if j: "j < length cbs" for j
  proof (cases "j = i")
    case True
    have "callbacks c' ! i = (callbacks c ! i)\<lparr>phase := p\<rparr>"
      using cs i len by simp
    then show ?thesis
      using True old [OF i] ok by simp
  next
    case False
    then have "target (cbs ! j) \<noteq> target (cbs ! i)"
      using distinct_targets [OF d j i] by simp
    then have "accounts (current c') (target (cbs ! j)) = accounts (current c) (target (cbs ! j))"
      by (rule acc)
    moreover have "callbacks c' ! j = callbacks c ! j"
      using cs False by simp
    ultimately show ?thesis
      using old [OF j] by simp
  qed
  have 3: "accounts (current c') x = accounts st x" if x: "x \<notin> set (map target cbs)" for x
  proof -
    have "x \<noteq> target (cbs ! i)"
      using x mem by blast
    then show ?thesis
      using acc rest [OF x] by simp
  qed
  show ?thesis
    unfolding invariant_def using 1 2 3 by blast
qed

lemma invariant_resume:
  assumes inv: "invariant st cbs c" and d: "distinct (map target cbs)"
  shows "invariant st cbs (resume i c)"
proof (cases "i < length (callbacks c)")
  case False
  then show ?thesis using inv by (simp add: resume_def)
next
  case True
  then have i: "i < length cbs" using inv by (simp add: invariant_def)
  have ti: "target (callbacks c ! i) = target (cbs ! i)"
    and ci: "change (callbacks c ! i) = change (cbs ! i)"
    and pi: "phaseOk st (cbs ! i) (phase (callbacks c ! i)) (accounts (current c) (target (cbs ! i)))"
    using inv i by (simp_all add: invariant_def)
  show ?thesis
  proof (cases "phase (callbacks c ! i)")
    case Pending
    then have st: "accounts (current c) (target (cbs ! i)) = accounts st (target (cbs ! i))"
      using pi by (simp add: phaseOk_def)
    show ?thesis
    proof (cases "accounts (current c) (target (cbs ! i))")
      case None
      then have r: "resume i c = c\<lparr>callbacks := (callbacks c)[i := (callbacks c ! i)\<lparr>phase := Failed NotFound\<rparr>]\<rparr>"
        using True Pending ti by (simp add: resume_def Let_def get_ADDRESS_ACCOUNT_def)
      show ?thesis
      proof (rule invariant_update [OF inv d i])
        show "callbacks (resume i c) = (callbacks c)[i := (callbacks c ! i)\<lparr>phase := Failed NotFound\<rparr>]"
          by (simp add: r)
        show "accounts (current (resume i c)) x = accounts (current c) x" for x
          by (simp add: r)
        show "phaseOk st (cbs ! i) (Failed NotFound) (accounts (current (resume i c)) (target (cbs ! i)))"
          using None st by (simp add: r phaseOk_def)
      qed
    next
      case (Some a)
      then have r: "resume i c = c\<lparr>callbacks := (callbacks c)[i := (callbacks c ! i)\<lparr>phase := Loaded a\<rparr>]\<rparr>"
        using True Pending ti by (simp add: resume_def Let_def get_ADDRESS_ACCOUNT_def)
      show ?thesis
      proof (rule invariant_update [OF inv d i])
        show "callbacks (resume i c) = (callbacks c)[i := (callbacks c ! i)\<lparr>phase := Loaded a\<rparr>]"
          by (simp add: r)
        show "accounts (current (resume i c)) x = accounts (current c) x" for x
          by (simp add: r)
        show "phaseOk st (cbs ! i) (Loaded a) (accounts (current (resume i c)) (target (cbs ! i)))"
          using Some st by (simp add: r phaseOk_def)
      qed
    qed
  next
    case (Loaded a)
    have a: "accounts st (target (cbs ! i)) = Some a"
      using pi Loaded by (simp add: phaseOk_def)
    show ?thesis
    proof (cases "newVotes (change (cbs ! i)) a")
      case (Inl err)
      then have r: "resume i c = c\<lparr>callbacks := (callbacks c)[i := (callbacks c ! i)\<lparr>phase := Failed err\<rparr>]\<rparr>"
        using True Loaded ci by (simp add: resume_def Let_def)
      have w: "written (change (cbs ! i)) a = a"
        using Inl by (simp add: written_def)
      show ?thesis
      proof (rule invariant_update [OF inv d i])
        show "callbacks (resume i c) = (callbacks c)[i := (callbacks c ! i)\<lparr>phase := Failed err\<rparr>]"
          by (simp add: r)
        show "accounts (current (resume i c)) x = accounts (current c) x" for x
          by (simp add: r)
        show "phaseOk st (cbs ! i) (Failed err) (accounts (current (resume i c)) (target (cbs ! i)))"
          using pi Loaded a w by (simp add: r phaseOk_def)
      qed
    next
      case (Inr v)
      then have r: "resume i c =
          \<lparr> current = updateCandidateKey
               (set_ADDRESS_ACCOUNT (current c) (target (cbs ! i)) (a\<lparr>Account.votes := Some v\<rparr>))
               (templateString (Account.votes a)) v (address a) (templateString (publicKey a)),
            callbacks = (callbacks c)[i := (callbacks c ! i)\<lparr>phase := Done\<rparr>] \<rparr>"
        using True Loaded ci ti by (simp add: resume_def Let_def)
      have w: "written (change (cbs ! i)) a = a\<lparr>Account.votes := Some v\<rparr>"
        using Inr by (simp add: written_def)
      show ?thesis
      proof (rule invariant_update [OF inv d i])
        show "callbacks (resume i c) = (callbacks c)[i := (callbacks c ! i)\<lparr>phase := Done\<rparr>]"
          by (simp add: r)
        show "accounts (current (resume i c)) x = accounts (current c) x"
          if "x \<noteq> target (cbs ! i)" for x
          using that by (simp add: r)
        show "phaseOk st (cbs ! i) Done (accounts (current (resume i c)) (target (cbs ! i)))"
          using a w by (simp add: r phaseOk_def)
      qed
    qed
  next
    case Done
    then show ?thesis using inv True by (simp add: resume_def Let_def)
  next
    case (Failed err)
    then show ?thesis using inv True by (simp add: resume_def Let_def)
  qed
qed

lemma invariant_run:
  "invariant st cbs c \<Longrightarrow> distinct (map target cbs) \<Longrightarrow> invariant st cbs (run sch c)"
  unfolding run_def by (induction sch arbitrary: c) (simp_all add: invariant_resume)

lemma resume_length [simp]: "length (callbacks (resume i c)) = length (callbacks c)"
  by (simp add: resume_def Let_def split: phase.splits sum.splits)

lemma run_length [simp]: "length (callbacks (run sch c)) = length (callbacks c)"
  unfolding run_def by (induction sch arbitrary: c) simp_all

lemma resume_other:
  "j \<noteq> i \<Longrightarrow> callbacks (resume i c) ! j = callbacks c ! j"
  by (simp add: resume_def Let_def split: phase.splits sum.splits)

lemma resume_finished:
  assumes "finished (phase (callbacks c ! j))"
  shows "finished (phase (callbacks (resume i c) ! j))"
proof (cases "j = i")
  case False
  then show ?thesis using assms by (simp add: resume_other)
next
  case True
  then have "resume i c = c"
    using assms by (simp add: resume_def Let_def finished_def split: phase.splits)
  then show ?thesis using assms by simp
qed

lemma resume_twice:
  assumes "i < length (callbacks c)"
  shows "finished (phase (callbacks (resume i (resume i c)) ! i))"
proof (cases "phase (callbacks c ! i)")
  case Pending
  then show ?thesis
    using assms
    by (simp add: resume_def Let_def finished_def split: sum.splits)
next
  case (Loaded a)
  then have "finished (phase (callbacks (resume i c) ! i))"
    using assms by (simp add: resume_def Let_def finished_def split: sum.splits)
  then show ?thesis by (rule resume_finished)
next
  case Done
  then have "finished (phase (callbacks c ! i))" by (simp add: finished_def)
  then show ?thesis by (intro resume_finished)
next
  case (Failed e)
  then have "finished (phase (callbacks c ! i))" by (simp add: finished_def)
  then show ?thesis by (intro resume_finished)
qed

lemma serial_Suc: "serial (Suc n) = serial n @ [n, n]"
  by (simp add: serial_def)

lemma run_append: "run (xs @ ys) c = run ys (run xs c)"
  by (simp add: run_def)

lemma serial_finishes:
  "n \<le> length (callbacks c) \<Longrightarrow> j < n \<Longrightarrow> finished (phase (callbacks (run (serial n) c) ! j))"
proof (induction n arbitrary: j)
  case 0
  then show ?case by simp
next
  case (Suc n)
  have r: "run (serial (Suc n)) c = resume n (resume n (run (serial n) c))"
    by (simp add: serial_Suc run_append) (simp add: run_def)
  show ?case
  proof (cases "j = n")
    case True
    have "n < length (callbacks (run (serial n) c))"
      using Suc.prems by simp
    then show ?thesis
      unfolding r True by (rule resume_twice)
  next
    case False
    then have "finished (phase (callbacks (run (serial n) c) ! j))"
      using Suc by simp
    then show ?thesis
      unfolding r by (intro resume_finished)
  qed
qed

lemma serial_settles: "settled (run (serial (length (callbacks c))) c)"
  unfolding settled_def list_all_length
  using serial_finishes [of "length (callbacks c)" c] by simp

lemma settled_outcome:
  assumes p: "\<forall>cb \<in> set cbs. phase cb = Pending"
    and d: "distinct (map target cbs)"
    and s: "settled (outcome sch st cbs)"
  shows "(\<forall>cb \<in> set cbs.
            accounts (current (outcome sch st cbs)) (target cb) =
              map_option (written (change cb)) (accounts st (target cb)))
         \<and> (\<forall>x. x \<notin> set (map target cbs) \<longrightarrow>
               accounts (current (outcome sch st cbs)) x = accounts st x)"
proof -
  let ?c = "outcome sch st cbs"
  have inv: "invariant st cbs ?c"
    unfolding outcome_def
    by (rule invariant_run [OF invariant_start [OF p] d])
  have "accounts (current ?c) (target cb) = map_option (written (change cb)) (accounts st (target cb))"
    if mem: "cb \<in> set cbs" for cb
  proof -
    obtain i where i: "i < length cbs" "cbs ! i = cb"
      using mem by (auto simp: in_set_conv_nth)
    have "finished (phase (callbacks ?c ! i))"
      using s i(1) inv by (simp add: settled_def list_all_length invariant_def)
    moreover have "phaseOk st (cbs ! i) (phase (callbacks ?c ! i)) (accounts (current ?c) (target (cbs ! i)))"
      using inv i(1) by (simp add: invariant_def)
    ultimately show ?thesis
      using i(2) by (cases "phase (callbacks ?c ! i)") (simp_all add: finished_def phaseOk_def)
  qed
  moreover have "accounts (current ?c) x = accounts st x" if "x \<notin> set (map target cbs)" for x
    using inv that by (simp add: invariant_def)
  ultimately show ?thesis by blast
qed

lemma forEach_pending: "\<forall>cb \<in> set (forEach f as). phase cb = Pending"
  by (simp add: forEach_def)

lemma forEach_targets [simp]: "map target (forEach f as) = as"
  by (simp add: forEach_def comp_def)

lemma forEach_length [simp]: "length (forEach f as) = length as"
  by (simp add: forEach_def)

lemma forEach_member:
  "x \<in> set as \<Longrightarrow> \<exists>cb \<in> set (forEach f as). target cb = x \<and> change cb = f"
  by (auto simp: forEach_def)

lemma BigNum_toString_not_Nil: "BigNum_toString n \<noteq> []"
  using magnitudeString_digit [of "nat n"] by (simp add: BigNum_toString_def)

lemma votesOr0_updated: "votesOr0 (a\<lparr>Account.votes := Some (BigNum_toString n)\<rparr>) = BigNum_toString n"
  by (simp add: votesOr0_def truthy_def BigNum_toString_not_Nil)

lemma weight_after:
  assumes w: "weight st x = Inr w" and f: "f w = Inr w'"
    and a: "accounts st' x = map_option (written f) (accounts st x)"
  shows "weight st' x = Inr w'"
proof -
  obtain acc where acc: "accounts st x = Some acc" "BigNum_new (votesOr0 acc) = Inr w"
    using w by (auto simp: weight_def get_ADDRESS_ACCOUNT_def split: option.splits)
  have "newVotes f acc = Inr (BigNum_toString w')"
    using acc(2) f by (simp add: newVotes_def)
  then have "written f acc = acc\<lparr>Account.votes := Some (BigNum_toString w')\<rparr>"
    by (simp add: written_def)
  then have "accounts st' x = Some (acc\<lparr>Account.votes := Some (BigNum_toString w')\<rparr>)"
    using a acc(1) by simp
  then show ?thesis
    by (simp add: weight_def get_ADDRESS_ACCOUNT_def votesOr0_updated BigNum_new_toString)
qed

lemma forEach_outcome:
  assumes d: "distinct as" and s: "settled (outcome sch st (forEach f as))"
  shows "accounts (current (outcome sch st (forEach f as))) x =
           (if x \<in> set as then map_option (written f) (accounts st x) else accounts st x)"
proof -
  note o = settled_outcome [OF forEach_pending _ s]
  have d': "distinct (map target (forEach f as))"
    using d by simp
  show ?thesis
  proof (cases "x \<in> set as")
    case True
    then obtain cb where "cb \<in> set (forEach f as)" "target cb = x" "change cb = f"
      using forEach_member by blast
    then show ?thesis
      using o [OF d'] True by auto
  next
    case False
    then show ?thesis
      using o [OF d'] by simp
  qed
qed

lemma outcome_serial_settles: "settled (outcome (serial (length cbs)) st cbs)"
  using serial_settles [of "\<lparr> current = st, callbacks = cbs \<rparr>"]
  by (simp add: outcome_def)

lemma callback_outcome:
  assumes p: "\<forall>cb \<in> set cbs. phase cb = Pending"
    and d: "distinct (map target cbs)"
    and s: "settled (outcome sch st cbs)"
    and cb: "cb \<in> set cbs"
    and w: "weight st (target cb) = Inr w"
    and f: "change cb w = Inr w'"
  shows "weight (current (outcome sch st cbs)) (target cb) = Inr w'"
proof -
  have "accounts (current (outcome sch st cbs)) (target cb) =
      map_option (written (change cb)) (accounts st (target cb))"
    using settled_outcome [OF p d s] cb by blast
  then show ?thesis
    using weight_after [of st "target cb" w "change cb" w'] w f by blast
qed

lemma written_fields:
  "balance (written f a) = balance a"
  "votedDelegatesPublicKeys (written f a) = votedDelegatesPublicKeys a"
  by (simp_all add: written_def split: sum.splits)

lemma outcome_preserves:
  assumes p: "\<forall>cb \<in> set cbs. phase cb = Pending"
    and d: "distinct (map target cbs)"
    and s: "settled (outcome sch st cbs)"
    and a: "accounts st x = Some a"
  shows "\<exists>a'. accounts (current (outcome sch st cbs)) x = Some a'
           \<and> balance a' = balance a
           \<and> votedDelegatesPublicKeys a' = votedDelegatesPublicKeys a"
proof (cases "x \<in> set (map target cbs)")
  case True
  then obtain cb where cb: "cb \<in> set cbs" "target cb = x"
    by auto
  then have "accounts (current (outcome sch st cbs)) x = Some (written (change cb) a)"
    using settled_outcome [OF p d s] a by auto
  then show ?thesis
    by (simp add: written_fields)
next
  case False
  then show ?thesis
    using settled_outcome [OF p d s] a by simp
qed

lemma addString_Inr: "BigNum_new s = Inr b \<Longrightarrow> addString w s = Inr (w + b)"
  by (simp add: addString_def)

lemma subString_Inr: "BigNum_new s = Inr b \<Longrightarrow> subString w s = Inr (w - b)"
  by (simp add: subString_def)

lemma example_numbers:
  "BigNum_new ''1000'' = Inr 1000" "BigNum_new ''5000'' = Inr 5000"
  "BigNum_new ''4990'' = Inr 4990" "BigNum_new ''2000'' = Inr 2000"
  "BigNum_new ''7000'' = Inr 7000" "BigNum_new ''4000'' = Inr 4000"
  "BigNum_toString 4990 = ''4990''" "BigNum_toString 3000 = ''3000''"
  "BigNum_toString 4000 = ''4000''" "BigNum_toString 4010 = ''4010''"
  by (simp_all add: BigNum_new_digits digitValue_def BigNum_toString_plain digitsOf.simps
      digitChar_values)

lemma resume_atomic:
  assumes i: "i < length (callbacks c)"
    and p: "phase (callbacks c ! i) = Pending"
    and a: "accounts (current c) (target (callbacks c ! i)) = Some a"
    and v: "newVotes (change (callbacks c ! i)) a = Inr v"
  shows "accounts (current (resume i (resume i c))) =
           (accounts (current c))(target (callbacks c ! i) \<mapsto> a\<lparr>Account.votes := Some v\<rparr>)
         \<and> callbacks (resume i (resume i c)) = (callbacks c)[i := (callbacks c ! i)\<lparr>phase := Done\<rparr>]"
proof -
  have 1: "resume i c = c\<lparr>callbacks := (callbacks c)[i := (callbacks c ! i)\<lparr>phase := Loaded a\<rparr>]\<rparr>"
    using i p a by (simp add: resume_def Let_def get_ADDRESS_ACCOUNT_def)
  show ?thesis
    unfolding 1 using i v by (simp add: resume_def Let_def)
qed

lemma run_pair: "run (i # i # sch) c = run sch (resume i (resume i c))"
  by (simp add: run_def)

lemma run_Nil: "run [] c = c"
  by (simp add: run_def)

lemma overlapping_started:
  "started (applyVote exampleAddress (exampleStore overlappingVoter) exampleVote) =
     [\<lparr> target = ''d2L'', change = (\<lambda>w. Inr (w - 10)), phase = Pending \<rparr>,
      \<lparr> target = ''d1L'', change = (\<lambda>w. addString w ''1000''), phase = Pending \<rparr>,
      \<lparr> target = ''d2L'',
        change = (\<lambda>w. case subString w ''1000'' of Inl err \<Rightarrow> Inl err | Inr w' \<Rightarrow> Inr (w' + 10)),
        phase = Pending \<rparr>]"
  by (simp add: applyVote_def applyFee_def applyAmount_def applyNewVote_def get_ADDRESS_ACCOUNT_def
      exampleStore_def overlappingVoter_def exampleVoter_def exampleVote_def delegateAddresses_def
      exampleAddress_def signedVotes_def forEach_def Let_def
      TRANSACTION_TYPE_VOTE_def TRANSACTION_TYPE_TRANSFER_def TRANSACTION_TYPE_IN_TRANSFER_def
      TRANSACTION_TYPE_OUT_TRANSFER_def cong: sum.case_cong)

lemma resume_read:
  assumes "i < length (callbacks c)" "phase (callbacks c ! i) = Pending"
    and "accounts (current c) (target (callbacks c ! i)) = Some a"
  shows "resume i c = c\<lparr>callbacks := (callbacks c)[i := (callbacks c ! i)\<lparr>phase := Loaded a\<rparr>]\<rparr>"
  using assms by (simp add: resume_def Let_def get_ADDRESS_ACCOUNT_def)

lemma resume_write:
  assumes "i < length (callbacks c)" "phase (callbacks c ! i) = Loaded a"
    and "newVotes (change (callbacks c ! i)) a = Inr v"
  shows "accounts (current (resume i c)) =
           (accounts (current c))(target (callbacks c ! i) \<mapsto> a\<lparr>Account.votes := Some v\<rparr>)
         \<and> callbacks (resume i c) = (callbacks c)[i := (callbacks c ! i)\<lparr>phase := Done\<rparr>]"
  using assms by (simp add: resume_def Let_def)

lemma example_weights:
  "weight (exampleStore v) ''d1L'' = Inr 2000"
  "weight (exampleStore v) ''d2L'' = Inr 5000"
  "weight (exampleStore v) ''d3L'' = Inr 7000"
  by (simp_all add: weight_def get_ADDRESS_ACCOUNT_def exampleStore_def exampleDelegate_def
      votesOr0_def truthy_def example_numbers)

subsection \<open>A callback whose target no other callback shares\<close>

lemma map_target_update:
  assumes "i < length cbs"
  shows "map target (cbs[i := (cbs ! i)\<lparr>phase := p\<rparr>]) = map target cbs"
proof -
  have "(map target cbs)[i := map target cbs ! i] = map target cbs"
    by (rule list_update_id)
  then show ?thesis
    using assms by (simp add: map_update)
qed

lemma resume_targets: "map target (callbacks (resume k c)) = map target (callbacks c)"
proof (cases "k < length (callbacks c)")
  case True
  then show ?thesis
    by (simp add: resume_def Let_def map_target_update split: phase.splits sum.splits)
next
  case False
  then show ?thesis by (simp add: resume_def)
qed

lemma resume_accounts:
  "x \<noteq> target (callbacks c ! k) \<Longrightarrow> accounts (current (resume k c)) x = accounts (current c) x"
  by (simp add: resume_def Let_def split: phase.splits sum.splits)

lemma isolated_update:
  assumes iso: "isolated st cbs i c" and i: "i < length cbs"
    and cs: "callbacks c' = (callbacks c)[i := (callbacks c ! i)\<lparr>phase := p\<rparr>]"
    and ok: "phaseOk st (cbs ! i) p (accounts (current c') (target (cbs ! i)))"
  shows "isolated st cbs i c'"
proof -
  have tm: "map target (callbacks c) = map target cbs"
    using iso by (simp add: isolated_def)
  then have len: "length (callbacks c) = length cbs"
    by (metis length_map)
  have "map target (callbacks c') = map target (callbacks c)"
    unfolding cs using i len by (simp add: map_target_update)
  moreover have "callbacks c' ! i = (callbacks c ! i)\<lparr>phase := p\<rparr>"
    using cs i len by simp
  ultimately show ?thesis
    using iso ok tm by (simp add: isolated_def)
qed

lemma isolated_resume:
  assumes iso: "isolated st cbs i c" and al: "alone cbs i"
  shows "isolated st cbs i (resume k c)"
proof -
  have i: "i < length cbs"
    using al by (simp add: alone_def)
  have tm: "map target (callbacks c) = map target cbs"
    using iso by (simp add: isolated_def)
  then have len: "length (callbacks c) = length cbs"
    by (metis length_map)
  have tg: "target (callbacks c ! j) = target (cbs ! j)" if "j < length cbs" for j
    using tm that len by (metis nth_map)
  have ti: "target (callbacks c ! i) = target (cbs ! i)"
    using tg i by simp
  have ci: "change (callbacks c ! i) = change (cbs ! i)"
    and pi: "phaseOk st (cbs ! i) (phase (callbacks c ! i)) (accounts (current c) (target (cbs ! i)))"
    using iso by (simp_all add: isolated_def)
  show ?thesis
  proof (cases "k < length (callbacks c)")
    case False
    then show ?thesis using iso by (simp add: resume_def)
  next
    case k: True
    show ?thesis
    proof (cases "k = i")
      case False
      have "target (cbs ! k) \<noteq> target (cbs ! i)"
        using al k len False by (simp add: alone_def)
      then have "target (cbs ! i) \<noteq> target (callbacks c ! k)"
        using tg [of k] k len by simp
      then have "accounts (current (resume k c)) (target (cbs ! i)) =
          accounts (current c) (target (cbs ! i))"
        by (rule resume_accounts)
      moreover have "callbacks (resume k c) ! i = callbacks c ! i"
        using False by (simp add: resume_other)
      moreover have "map target (callbacks (resume k c)) = map target cbs"
        using tm by (simp add: resume_targets)
      ultimately show ?thesis
        using ci pi by (simp add: isolated_def)
    next
      case True
      have il: "i < length (callbacks c)"
        using i len by simp
      show ?thesis
        unfolding True
      proof (cases "phase (callbacks c ! i)")
        case Pending
        then have st: "accounts (current c) (target (cbs ! i)) = accounts st (target (cbs ! i))"
          using pi by (simp add: phaseOk_def)
        show "isolated st cbs i (resume i c)"
        proof (cases "accounts (current c) (target (cbs ! i))")
          case None
          then have r: "resume i c =
              c\<lparr>callbacks := (callbacks c)[i := (callbacks c ! i)\<lparr>phase := Failed NotFound\<rparr>]\<rparr>"
            using il Pending ti by (simp add: resume_def Let_def get_ADDRESS_ACCOUNT_def)
          show ?thesis
          proof (rule isolated_update [OF iso i])
            show "callbacks (resume i c) =
                (callbacks c)[i := (callbacks c ! i)\<lparr>phase := Failed NotFound\<rparr>]"
              by (simp add: r)
            show "phaseOk st (cbs ! i) (Failed NotFound)
                (accounts (current (resume i c)) (target (cbs ! i)))"
              using None st by (simp add: r phaseOk_def)
          qed
        next
          case (Some a)
          then have r: "resume i c =
              c\<lparr>callbacks := (callbacks c)[i := (callbacks c ! i)\<lparr>phase := Loaded a\<rparr>]\<rparr>"
            using il Pending ti by (simp add: resume_def Let_def get_ADDRESS_ACCOUNT_def)
          show ?thesis
          proof (rule isolated_update [OF iso i])
            show "callbacks (resume i c) =
                (callbacks c)[i := (callbacks c ! i)\<lparr>phase := Loaded a\<rparr>]"
              by (simp add: r)
            show "phaseOk st (cbs ! i) (Loaded a)
                (accounts (current (resume i c)) (target (cbs ! i)))"
              using Some st by (simp add: r phaseOk_def)
          qed
        qed
      next
        case (Loaded a)
        have a: "accounts st (target (cbs ! i)) = Some a"
          using pi Loaded by (simp add: phaseOk_def)
        show "isolated st cbs i (resume i c)"
        proof (cases "newVotes (change (cbs ! i)) a")
          case (Inl err)
          then have r: "resume i c =
              c\<lparr>callbacks := (callbacks c)[i := (callbacks c ! i)\<lparr>phase := Failed err\<rparr>]\<rparr>"
            using il Loaded ci by (simp add: resume_def Let_def)
          have w: "written (change (cbs ! i)) a = a"
            using Inl by (simp add: written_def)
          show ?thesis
          proof (rule isolated_update [OF iso i])
            show "callbacks (resume i c) =
                (callbacks c)[i := (callbacks c ! i)\<lparr>phase := Failed err\<rparr>]"
              by (simp add: r)
            show "phaseOk st (cbs ! i) (Failed err)
                (accounts (current (resume i c)) (target (cbs ! i)))"
              using pi Loaded a w by (simp add: r phaseOk_def)
          qed
        next
          case (Inr v)
          then have r: "resume i c =
              \<lparr> current = updateCandidateKey
                   (set_ADDRESS_ACCOUNT (current c) (target (cbs ! i)) (a\<lparr>Account.votes := Some v\<rparr>))
                   (templateString (Account.votes a)) v (address a) (templateString (publicKey a)),
                callbacks = (callbacks c)[i := (callbacks c ! i)\<lparr>phase := Done\<rparr>] \<rparr>"
            using il Loaded ci ti by (simp add: resume_def Let_def)
          have w: "written (change (cbs ! i)) a = a\<lparr>Account.votes := Some v\<rparr>"
            using Inr by (simp add: written_def)
          show ?thesis
          proof (rule isolated_update [OF iso i])
            show "callbacks (resume i c) = (callbacks c)[i := (callbacks c ! i)\<lparr>phase := Done\<rparr>]"
              by (simp add: r)
            show "phaseOk st (cbs ! i) Done (accounts (current (resume i c)) (target (cbs ! i)))"
              using a w by (simp add: r phaseOk_def)
          qed
        qed
      next
        case Done
        then show "isolated st cbs i (resume i c)"
          using iso il by (simp add: resume_def Let_def)
      next
        case (Failed err)
        then show "isolated st cbs i (resume i c)"
          using iso il by (simp add: resume_def Let_def)
      qed
    qed
  qed
qed

lemma isolated_run:
  "isolated st cbs i c \<Longrightarrow> alone cbs i \<Longrightarrow> isolated st cbs i (run sch c)"
  unfolding run_def by (induction sch arbitrary: c) (simp_all add: isolated_resume)

lemma alone_outcome:
  assumes p: "\<forall>cb \<in> set cbs. phase cb = Pending"
    and al: "alone cbs i"
    and s: "settled (outcome sch st cbs)"
  shows "accounts (current (outcome sch st cbs)) (target (cbs ! i)) =
           map_option (written (change (cbs ! i))) (accounts st (target (cbs ! i)))"
proof -
  let ?c = "outcome sch st cbs"
  have i: "i < length cbs"
    using al by (simp add: alone_def)
  then have "phase (cbs ! i) = Pending"
    using p by simp
  then have "isolated st cbs i \<lparr> current = st, callbacks = cbs \<rparr>"
    by (simp add: isolated_def phaseOk_def)
  then have iso: "isolated st cbs i ?c"
    unfolding outcome_def using al by (rule isolated_run)
  have "length (callbacks ?c) = length cbs"
    by (simp add: outcome_def)
  then have "finished (phase (callbacks ?c ! i))"
    using s i by (simp add: settled_def list_all_length)
  moreover have "phaseOk st (cbs ! i) (phase (callbacks ?c ! i))
      (accounts (current ?c) (target (cbs ! i)))"
    using iso by (simp add: isolated_def)
  ultimately show ?thesis
    by (cases "phase (callbacks ?c ! i)") (simp_all add: finished_def phaseOk_def)
qed

lemma alone_weight:
  assumes p: "\<forall>cb \<in> set cbs. phase cb = Pending"
    and al: "alone cbs i"
    and s: "settled (outcome sch st cbs)"
    and t: "target (cbs ! i) = x" and f: "change (cbs ! i) = f"
    and w: "weight st x = Inr w" and fw: "f w = Inr w'"
  shows "weight (current (outcome sch st cbs)) x = Inr w'"
proof -
  have "accounts (current (outcome sch st cbs)) x = map_option (written f) (accounts st x)"
    using alone_outcome [OF p al s] t f by simp
  then show ?thesis
    using weight_after [of st x w f w'] w fw by blast
qed

subsection \<open>What every execution keeps\<close>

lemma sameButVotes_refl: "sameButVotes a a"
  by (simp add: sameButVotes_def)

lemma sameButVotes_votes: "sameButVotes a0 a \<Longrightarrow> sameButVotes a0 (a\<lparr>Account.votes := v\<rparr>)"
  by (simp add: sameButVotes_def)

lemma sameButVotes_fields:
  assumes "sameButVotes a a'"
  shows "balance a' = balance a" "votedDelegatesPublicKeys a' = votedDelegatesPublicKeys a"
proof -
  have e: "a'\<lparr>Account.votes := Account.votes a\<rparr> = a"
    using assms by (simp add: sameButVotes_def)
  have "balance (a'\<lparr>Account.votes := Account.votes a\<rparr>) = balance a'"
    "votedDelegatesPublicKeys (a'\<lparr>Account.votes := Account.votes a\<rparr>) = votedDelegatesPublicKeys a'"
    by simp_all
  then show "balance a' = balance a" "votedDelegatesPublicKeys a' = votedDelegatesPublicKeys a"
    by (simp_all only: e)
qed

lemma kept_start:
  "\<forall>cb \<in> set cbs. phase cb = Pending \<Longrightarrow> kept st \<lparr> current = st, callbacks = cbs \<rparr>"
  by (simp add: kept_def list_all_iff loadedOk_def option.rel_refl sameButVotes_refl)

lemma kept_update:
  assumes k: "kept st c" and i: "i < length (callbacks c)"
    and cs: "callbacks c' = (callbacks c)[i := cb]"
    and ok: "loadedOk st cb"
    and acc: "\<And>x. rel_option sameButVotes (accounts st x) (accounts (current c') x)"
  shows "kept st c'"
proof -
  have "list_all (loadedOk st) (callbacks c)"
    using k by (simp add: kept_def)
  then have "list_all (loadedOk st) ((callbacks c)[i := cb])"
    using ok i by (simp add: list_all_length nth_list_update)
  then show ?thesis
    using acc cs by (simp add: kept_def)
qed

lemma kept_resume:
  assumes k: "kept st c"
  shows "kept st (resume i c)"
proof (cases "i < length (callbacks c)")
  case False
  then show ?thesis using k by (simp add: resume_def)
next
  case True
  let ?cb = "callbacks c ! i"
  have rel: "\<And>x. rel_option sameButVotes (accounts st x) (accounts (current c) x)"
    using k by (simp add: kept_def)
  have lo: "loadedOk st ?cb"
    using k True by (simp add: kept_def list_all_length)
  show ?thesis
  proof (cases "phase ?cb")
    case Pending
    show ?thesis
    proof (cases "accounts (current c) (target ?cb)")
      case None
      then have r: "resume i c = c\<lparr>callbacks := (callbacks c)[i := ?cb\<lparr>phase := Failed NotFound\<rparr>]\<rparr>"
        using True Pending by (simp add: resume_def Let_def get_ADDRESS_ACCOUNT_def)
      show ?thesis
      proof (rule kept_update [OF k True])
        show "callbacks (resume i c) = (callbacks c)[i := ?cb\<lparr>phase := Failed NotFound\<rparr>]"
          by (simp add: r)
        show "loadedOk st (?cb\<lparr>phase := Failed NotFound\<rparr>)"
          by (simp add: loadedOk_def)
        show "rel_option sameButVotes (accounts st x) (accounts (current (resume i c)) x)" for x
          using rel by (simp add: r)
      qed
    next
      case (Some a)
      then have r: "resume i c = c\<lparr>callbacks := (callbacks c)[i := ?cb\<lparr>phase := Loaded a\<rparr>]\<rparr>"
        using True Pending by (simp add: resume_def Let_def get_ADDRESS_ACCOUNT_def)
      obtain a0 where a0: "accounts st (target ?cb) = Some a0" "sameButVotes a0 a"
        using rel [of "target ?cb"] Some by (cases "accounts st (target ?cb)") auto
      show ?thesis
      proof (rule kept_update [OF k True])
        show "callbacks (resume i c) = (callbacks c)[i := ?cb\<lparr>phase := Loaded a\<rparr>]"
          by (simp add: r)
        show "loadedOk st (?cb\<lparr>phase := Loaded a\<rparr>)"
          using a0 by (simp add: loadedOk_def)
        show "rel_option sameButVotes (accounts st x) (accounts (current (resume i c)) x)" for x
          using rel by (simp add: r)
      qed
    qed
  next
    case (Loaded a)
    obtain a0 where a0: "accounts st (target ?cb) = Some a0" "sameButVotes a0 a"
      using lo Loaded by (auto simp: loadedOk_def split: option.splits)
    show ?thesis
    proof (cases "newVotes (change ?cb) a")
      case (Inl err)
      then have r: "resume i c = c\<lparr>callbacks := (callbacks c)[i := ?cb\<lparr>phase := Failed err\<rparr>]\<rparr>"
        using True Loaded by (simp add: resume_def Let_def)
      show ?thesis
      proof (rule kept_update [OF k True])
        show "callbacks (resume i c) = (callbacks c)[i := ?cb\<lparr>phase := Failed err\<rparr>]"
          by (simp add: r)
        show "loadedOk st (?cb\<lparr>phase := Failed err\<rparr>)"
          by (simp add: loadedOk_def)
        show "rel_option sameButVotes (accounts st x) (accounts (current (resume i c)) x)" for x
          using rel by (simp add: r)
      qed
    next
      case (Inr v)
      then have r: "resume i c =
          \<lparr> current = updateCandidateKey
               (set_ADDRESS_ACCOUNT (current c) (target ?cb) (a\<lparr>Account.votes := Some v\<rparr>))
               (templateString (Account.votes a)) v (address a) (templateString (publicKey a)),
            callbacks = (callbacks c)[i := ?cb\<lparr>phase := Done\<rparr>] \<rparr>"
        using True Loaded by (simp add: resume_def Let_def)
      show ?thesis
      proof (rule kept_update [OF k True])
        show "callbacks (resume i c) = (callbacks c)[i := ?cb\<lparr>phase := Done\<rparr>]"
          by (simp add: r)
        show "loadedOk st (?cb\<lparr>phase := Done\<rparr>)"
          by (simp add: loadedOk_def)
        show "rel_option sameButVotes (accounts st x) (accounts (current (resume i c)) x)" for x
        proof (cases "x = target ?cb")
          case True
          then show ?thesis
            using a0 sameButVotes_votes [OF a0(2)] by (simp add: r)
        next
          case False
          then show ?thesis
            using rel by (simp add: r)
        qed
      qed
    qed
  next
    case Done
    then show ?thesis using k True by (simp add: resume_def Let_def)
  next
    case (Failed err)
    then show ?thesis using k True by (simp add: resume_def Let_def)
  qed
qed

lemma kept_run: "kept st c \<Longrightarrow> kept st (run sch c)"
  unfolding run_def by (induction sch arbitrary: c) (simp_all add: kept_resume)

lemma kept_outcome:
  assumes p: "\<forall>cb \<in> set cbs. phase cb = Pending"
    and a: "accounts st x = Some a"
  shows "\<exists>a'. accounts (current (outcome sch st cbs)) x = Some a'
           \<and> balance a' = balance a
           \<and> votedDelegatesPublicKeys a' = votedDelegatesPublicKeys a"
proof -
  have "kept st (outcome sch st cbs)"
    unfolding outcome_def by (rule kept_run [OF kept_start [OF p]])
  then have "rel_option sameButVotes (accounts st x) (accounts (current (outcome sch st cbs)) x)"
    by (simp add: kept_def)
  then obtain a' where a': "accounts (current (outcome sch st cbs)) x = Some a'"
      "sameButVotes a a'"
    using a by (cases "accounts (current (outcome sch st cbs)) x") auto
  then show ?thesis
    using sameButVotes_fields [OF a'(2)] by simp
qed

subsection \<open>C4: the netting of a vote\<close>

text \<open>
  Claim C4 gives the changes of \<^verbatim>\<open>applyVote\<close> for every vote transaction. When the sender
  currently votes for the delegate it votes against, the fee effect targets that delegate
  too. With the callbacks run one after the other the weight of \<open>d2\<close> goes from 5000 to
  4000: it changes by \<open>- B\<close>, not by \<open>F - B = - 990\<close>.
\<close>

theorem vote_netting_counterexample:
  "settled (outcome [0, 0, 1, 1, 2, 2] (exampleStore overlappingVoter)
             (started (applyVote exampleAddress (exampleStore overlappingVoter) exampleVote)))
   \<and> weight (exampleStore overlappingVoter) ''d2L'' = Inr 5000
   \<and> BigNum_new (balance overlappingVoter) = Inr 1000
   \<and> Transaction.fee exampleVote = 10
   \<and> weight (afterApplyVote [0, 0, 1, 1, 2, 2] exampleAddress (exampleStore overlappingVoter) exampleVote)
        ''d2L'' = Inr 4000"
proof -
  define c0 where "c0 = \<lparr> current = exampleStore overlappingVoter,
      callbacks = started (applyVote exampleAddress (exampleStore overlappingVoter) exampleVote) \<rparr>"
  define c1 where "c1 = resume 0 (resume 0 c0)"
  define c2 where "c2 = resume 1 (resume 1 c1)"
  define c3 where "c3 = resume 2 (resume 2 c2)"
  have cb0: "callbacks c0 =
     [\<lparr> target = ''d2L'', change = (\<lambda>w. Inr (w - 10)), phase = Pending \<rparr>,
      \<lparr> target = ''d1L'', change = (\<lambda>w. addString w ''1000''), phase = Pending \<rparr>,
      \<lparr> target = ''d2L'',
        change = (\<lambda>w. case subString w ''1000'' of Inl err \<Rightarrow> Inl err | Inr w' \<Rightarrow> Inr (w' + 10)),
        phase = Pending \<rparr>]"
    by (simp add: c0_def overlapping_started)
  have a0: "accounts (current c0) ''d2L'' = Some (exampleDelegate ''d2'' ''5000'')"
      "accounts (current c0) ''d1L'' = Some (exampleDelegate ''d1'' ''2000'')"
    by (simp_all add: c0_def exampleStore_def)
  have n0: "newVotes (\<lambda>w. Inr (w - 10)) (exampleDelegate ''d2'' ''5000'') = Inr ''4990''"
    by (simp add: newVotes_def votesOr0_def truthy_def exampleDelegate_def example_numbers)
  have s1: "accounts (current c1) =
        (accounts (current c0))(''d2L'' \<mapsto> (exampleDelegate ''d2'' ''5000'')\<lparr>Account.votes := Some ''4990''\<rparr>)"
    "callbacks c1 = (callbacks c0)[0 := (callbacks c0 ! 0)\<lparr>phase := Done\<rparr>]"
    using resume_atomic [of 0 c0 "exampleDelegate ''d2'' ''5000''" "''4990''"] a0 n0
    by (simp_all add: c1_def cb0)
  have n1: "newVotes (\<lambda>w. addString w ''1000'') (exampleDelegate ''d1'' ''2000'') = Inr ''3000''"
    by (simp add: newVotes_def votesOr0_def truthy_def exampleDelegate_def example_numbers addString_def)
  have s2: "accounts (current c2) =
        (accounts (current c1))(''d1L'' \<mapsto> (exampleDelegate ''d1'' ''2000'')\<lparr>Account.votes := Some ''3000''\<rparr>)"
    "callbacks c2 = (callbacks c1)[1 := (callbacks c1 ! 1)\<lparr>phase := Done\<rparr>]"
    using resume_atomic [of 1 c1 "exampleDelegate ''d1'' ''2000''" "''3000''"] a0 n1
    by (simp_all add: c2_def s1 cb0)
  have n2: "newVotes (\<lambda>w. case subString w ''1000'' of Inl err \<Rightarrow> Inl err | Inr w' \<Rightarrow> Inr (w' + 10))
        ((exampleDelegate ''d2'' ''5000'')\<lparr>Account.votes := Some ''4990''\<rparr>) = Inr ''4000''"
    by (simp add: newVotes_def votesOr0_def truthy_def exampleDelegate_def example_numbers subString_def)
  have s3: "accounts (current c3) =
        (accounts (current c2))(''d2L'' \<mapsto> (exampleDelegate ''d2'' ''5000'')\<lparr>Account.votes := Some ''4000''\<rparr>)"
    "callbacks c3 = (callbacks c2)[2 := (callbacks c2 ! 2)\<lparr>phase := Done\<rparr>]"
    using resume_atomic [of 2 c2 "(exampleDelegate ''d2'' ''5000'')\<lparr>Account.votes := Some ''4990''\<rparr>" "''4000''"] n2
    by (simp_all add: c3_def s2 s1 cb0)
  have o: "outcome [0, 0, 1, 1, 2, 2] (exampleStore overlappingVoter)
             (started (applyVote exampleAddress (exampleStore overlappingVoter) exampleVote)) = c3"
    by (simp add: outcome_def run_pair run_Nil c3_def c2_def c1_def c0_def)
  have 1: "settled c3"
    by (simp add: settled_def s3 s2 s1 cb0 finished_def)
  have 2: "weight (current c3) ''d2L'' = Inr 4000"
    by (simp add: weight_def get_ADDRESS_ACCOUNT_def s3 votesOr0_def truthy_def example_numbers)
  have 3: "weight (exampleStore overlappingVoter) ''d2L'' = Inr 5000"
    by (simp add: weight_def get_ADDRESS_ACCOUNT_def exampleStore_def exampleDelegate_def
        votesOr0_def truthy_def example_numbers)
  have 4: "BigNum_new (balance overlappingVoter) = Inr 1000"
    by (simp add: overlappingVoter_def exampleVoter_def example_numbers)
  have 5: "Transaction.fee exampleVote = 10"
    by (simp add: exampleVote_def)
  show ?thesis
    unfolding afterApplyVote_def o using 1 2 3 4 5 by blast
qed

text \<open>
  On the same input, with all three reads served before the first write, the update of the
  fee effect is lost and the weight ends at 4010: where two callbacks have the same target
  the result depends on the schedule.
\<close>

lemma vote_netting_race:
  "settled (outcome [0, 1, 2, 0, 1, 2] (exampleStore overlappingVoter)
             (started (applyVote exampleAddress (exampleStore overlappingVoter) exampleVote)))
   \<and> weight (afterApplyVote [0, 1, 2, 0, 1, 2] exampleAddress (exampleStore overlappingVoter) exampleVote)
        ''d2L'' = Inr 4010"
proof -
  define c0 where "c0 = \<lparr> current = exampleStore overlappingVoter,
      callbacks = started (applyVote exampleAddress (exampleStore overlappingVoter) exampleVote) \<rparr>"
  define c1 where "c1 = resume 0 c0"
  define c2 where "c2 = resume 1 c1"
  define c3 where "c3 = resume 2 c2"
  define c4 where "c4 = resume 0 c3"
  define c5 where "c5 = resume 1 c4"
  define c6 where "c6 = resume 2 c5"
  let ?d1 = "exampleDelegate ''d1'' ''2000''"
  let ?d2 = "exampleDelegate ''d2'' ''5000''"
  have cb0: "callbacks c0 =
     [\<lparr> target = ''d2L'', change = (\<lambda>w. Inr (w - 10)), phase = Pending \<rparr>,
      \<lparr> target = ''d1L'', change = (\<lambda>w. addString w ''1000''), phase = Pending \<rparr>,
      \<lparr> target = ''d2L'',
        change = (\<lambda>w. case subString w ''1000'' of Inl err \<Rightarrow> Inl err | Inr w' \<Rightarrow> Inr (w' + 10)),
        phase = Pending \<rparr>]"
    by (simp add: c0_def overlapping_started)
  have a0: "accounts (current c0) ''d2L'' = Some ?d2" "accounts (current c0) ''d1L'' = Some ?d1"
    by (simp_all add: c0_def exampleStore_def)
  have r1: "c1 = c0\<lparr>callbacks := (callbacks c0)[0 := (callbacks c0 ! 0)\<lparr>phase := Loaded ?d2\<rparr>]\<rparr>"
    unfolding c1_def using a0 by (intro resume_read) (simp_all add: cb0)
  have r2: "c2 = c1\<lparr>callbacks := (callbacks c1)[1 := (callbacks c1 ! 1)\<lparr>phase := Loaded ?d1\<rparr>]\<rparr>"
    unfolding c2_def using a0 by (intro resume_read) (simp_all add: r1 cb0)
  have r3: "c3 = c2\<lparr>callbacks := (callbacks c2)[2 := (callbacks c2 ! 2)\<lparr>phase := Loaded ?d2\<rparr>]\<rparr>"
    unfolding c3_def using a0 by (intro resume_read) (simp_all add: r2 r1 cb0)
  have cb3: "callbacks c3 =
     [\<lparr> target = ''d2L'', change = (\<lambda>w. Inr (w - 10)), phase = Loaded ?d2 \<rparr>,
      \<lparr> target = ''d1L'', change = (\<lambda>w. addString w ''1000''), phase = Loaded ?d1 \<rparr>,
      \<lparr> target = ''d2L'',
        change = (\<lambda>w. case subString w ''1000'' of Inl err \<Rightarrow> Inl err | Inr w' \<Rightarrow> Inr (w' + 10)),
        phase = Loaded ?d2 \<rparr>]"
    by (simp add: r3 r2 r1 cb0)
  have n0: "newVotes (\<lambda>w. Inr (w - 10)) ?d2 = Inr ''4990''"
    by (simp add: newVotes_def votesOr0_def truthy_def exampleDelegate_def example_numbers)
  have n1: "newVotes (\<lambda>w. addString w ''1000'') ?d1 = Inr ''3000''"
    by (simp add: newVotes_def votesOr0_def truthy_def exampleDelegate_def example_numbers addString_def)
  have n2: "newVotes (\<lambda>w. case subString w ''1000'' of Inl err \<Rightarrow> Inl err | Inr w' \<Rightarrow> Inr (w' + 10))
        ?d2 = Inr ''4010''"
    by (simp add: newVotes_def votesOr0_def truthy_def exampleDelegate_def example_numbers subString_def)
  have s4: "accounts (current c4) = (accounts (current c3))(''d2L'' \<mapsto> ?d2\<lparr>Account.votes := Some ''4990''\<rparr>)"
    "callbacks c4 = (callbacks c3)[0 := (callbacks c3 ! 0)\<lparr>phase := Done\<rparr>]"
    using resume_write [of 0 c3 ?d2 "''4990''"] n0 by (simp_all add: c4_def cb3)
  have s5: "accounts (current c5) = (accounts (current c4))(''d1L'' \<mapsto> ?d1\<lparr>Account.votes := Some ''3000''\<rparr>)"
    "callbacks c5 = (callbacks c4)[1 := (callbacks c4 ! 1)\<lparr>phase := Done\<rparr>]"
    using resume_write [of 1 c4 ?d1 "''3000''"] n1 by (simp_all add: c5_def s4 cb3)
  have s6: "accounts (current c6) = (accounts (current c5))(''d2L'' \<mapsto> ?d2\<lparr>Account.votes := Some ''4010''\<rparr>)"
    "callbacks c6 = (callbacks c5)[2 := (callbacks c5 ! 2)\<lparr>phase := Done\<rparr>]"
    using resume_write [of 2 c5 ?d2 "''4010''"] n2 by (simp_all add: c6_def s5 s4 cb3)
  have o: "outcome [0, 1, 2, 0, 1, 2] (exampleStore overlappingVoter)
             (started (applyVote exampleAddress (exampleStore overlappingVoter) exampleVote)) = c6"
    by (simp add: outcome_def run_def c6_def c5_def c4_def c3_def c2_def c1_def c0_def)
  have 1: "settled c6"
    by (simp add: settled_def s6 s5 s4 cb3 finished_def)
  have 2: "weight (current c6) ''d2L'' = Inr 4010"
    by (simp add: weight_def get_ADDRESS_ACCOUNT_def s6 votesOr0_def truthy_def
        BigNum_new_digits digitValue_def)
  show ?thesis
    unfolding afterApplyVote_def o using 1 2 by blast
qed

text \<open>
  The new-vote effect by itself, whatever the sender currently votes for: its two callbacks
  change the weight of \<open>d1\<close> by \<open>+ b\<close> and the weight of \<open>d2\<close> by \<open>fee - b\<close>, and those of
  \<^verbatim>\<open>undoNewVote\<close> by \<open>- b\<close> and by \<open>b - fee\<close>.
\<close>

lemma newVote_started:
  assumes ty: "Transaction.type tx = TRANSACTION_TYPE_VOTE"
    and vs: "Asset.votes (Transaction.asset tx) = Some vs"
    and up: "signedVotes CHR ''+'' g vs = [d1]"
    and down: "signedVotes CHR ''-'' g vs = [d2]"
    and s: "accounts st (Transaction.senderId tx) = Some s"
  shows "applyNewVote g st tx =
           Inr [\<lparr> target = d1, change = (\<lambda>w. addString w (balance s)), phase = Pending \<rparr>,
                \<lparr> target = d2,
                  change = (\<lambda>w. case subString w (balance s) of
                                  Inl err \<Rightarrow> Inl err | Inr w' \<Rightarrow> Inr (w' + Transaction.fee tx)),
                  phase = Pending \<rparr>]"
    and "undoNewVote g st tx =
           Inr [\<lparr> target = d1, change = (\<lambda>w. subString w (balance s)), phase = Pending \<rparr>,
                \<lparr> target = d2,
                  change = (\<lambda>w. case addString w (balance s) of
                                  Inl err \<Rightarrow> Inl err | Inr w' \<Rightarrow> Inr (w' - Transaction.fee tx)),
                  phase = Pending \<rparr>]"
  using ty vs up down s
  by (simp_all add: applyNewVote_def undoNewVote_def get_ADDRESS_ACCOUNT_def Let_def forEach_def)

lemma applyNewVote_changes:
  assumes ty: "Transaction.type tx = TRANSACTION_TYPE_VOTE"
    and vs: "Asset.votes (Transaction.asset tx) = Some vs"
    and up: "signedVotes CHR ''+'' g vs = [d1]"
    and down: "signedVotes CHR ''-'' g vs = [d2]"
    and s: "accounts st (Transaction.senderId tx) = Some s"
    and b: "BigNum_new (balance s) = Inr b"
    and ne: "d1 \<noteq> d2"
    and w1: "weight st d1 = Inr w1"
    and w2: "weight st d2 = Inr w2"
    and a: "settled (outcome sch st (callbacksOf (applyNewVote g st tx)))"
  shows "weight (afterApplyNewVote sch g st tx) d1 = Inr (w1 + b)
     \<and> weight (afterApplyNewVote sch g st tx) d2 = Inr (w2 + (Transaction.fee tx - b))
     \<and> (\<exists>s'. accounts (afterApplyNewVote sch g st tx) (Transaction.senderId tx) = Some s'
              \<and> balance s' = balance s)"
proof -
  let ?F = "Transaction.fee tx"
  define upv where "upv = (\<lambda>w. addString w (balance s))"
  define dnv where "dnv = (\<lambda>w. case subString w (balance s) of
                                  Inl err \<Rightarrow> Inl err | Inr w' \<Rightarrow> Inr (w' + ?F))"
  define cbs where "cbs = [\<lparr> target = d1, change = upv, phase = Pending \<rparr>,
                           \<lparr> target = d2, change = dnv, phase = Pending \<rparr>]"
  have ca: "callbacksOf (applyNewVote g st tx) = cbs"
    using newVote_started(1) [OF ty vs up down s]
    by (simp add: callbacksOf_def cbs_def upv_def dnv_def)
  have p: "\<forall>cb \<in> set cbs. phase cb = Pending"
    by (simp add: cbs_def)
  have dd: "distinct (map target cbs)"
    using ne by (simp add: cbs_def)
  have m1: "\<lparr> target = d1, change = upv, phase = Pending \<rparr> \<in> set cbs"
    and m2: "\<lparr> target = d2, change = dnv, phase = Pending \<rparr> \<in> set cbs"
    by (simp_all add: cbs_def)
  have e1: "upv w1 = Inr (w1 + b)" and e2: "dnv w2 = Inr (w2 + (?F - b))"
    using b by (simp_all add: upv_def dnv_def addString_Inr subString_Inr)
  have a': "settled (outcome sch st cbs)"
    using a by (simp add: ca)
  have "\<exists>s'. accounts (current (outcome sch st cbs)) (Transaction.senderId tx) = Some s'
      \<and> balance s' = balance s"
    using kept_outcome [OF p s, of sch] by blast
  then show ?thesis
    unfolding afterApplyNewVote_def ca
    using callback_outcome [OF p dd a' m1] callback_outcome [OF p dd a' m2] w1 w2 e1 e2
    by simp
qed

lemma undoNewVote_changes:
  assumes ty: "Transaction.type tx = TRANSACTION_TYPE_VOTE"
    and vs: "Asset.votes (Transaction.asset tx) = Some vs"
    and up: "signedVotes CHR ''+'' g vs = [d1]"
    and down: "signedVotes CHR ''-'' g vs = [d2]"
    and s: "accounts st (Transaction.senderId tx) = Some s"
    and b: "BigNum_new (balance s) = Inr b"
    and ne: "d1 \<noteq> d2"
    and w1: "weight st d1 = Inr w1"
    and w2: "weight st d2 = Inr w2"
    and u: "settled (outcome sch st (callbacksOf (undoNewVote g st tx)))"
  shows "weight (afterUndoNewVote sch g st tx) d1 = Inr (w1 - b)
     \<and> weight (afterUndoNewVote sch g st tx) d2 = Inr (w2 + (b - Transaction.fee tx))"
proof -
  let ?F = "Transaction.fee tx"
  define upv where "upv = (\<lambda>w. subString w (balance s))"
  define dnv where "dnv = (\<lambda>w. case addString w (balance s) of
                                  Inl err \<Rightarrow> Inl err | Inr w' \<Rightarrow> Inr (w' - ?F))"
  define cbs where "cbs = [\<lparr> target = d1, change = upv, phase = Pending \<rparr>,
                           \<lparr> target = d2, change = dnv, phase = Pending \<rparr>]"
  have cu: "callbacksOf (undoNewVote g st tx) = cbs"
    using newVote_started(2) [OF ty vs up down s]
    by (simp add: callbacksOf_def cbs_def upv_def dnv_def)
  have p: "\<forall>cb \<in> set cbs. phase cb = Pending"
    by (simp add: cbs_def)
  have dd: "distinct (map target cbs)"
    using ne by (simp add: cbs_def)
  have m1: "\<lparr> target = d1, change = upv, phase = Pending \<rparr> \<in> set cbs"
    and m2: "\<lparr> target = d2, change = dnv, phase = Pending \<rparr> \<in> set cbs"
    by (simp_all add: cbs_def)
  have e1: "upv w1 = Inr (w1 - b)" and e2: "dnv w2 = Inr (w2 + (b - ?F))"
    using b by (simp_all add: upv_def dnv_def addString_Inr subString_Inr)
  have u': "settled (outcome sch st cbs)"
    using u by (simp add: cu)
  show ?thesis
    unfolding afterUndoNewVote_def cu
    using callback_outcome [OF p dd u' m1] callback_outcome [OF p dd u' m2] w1 w2 e1 e2
    by simp
qed

lemma newVote_settles:
  assumes ty: "Transaction.type tx = TRANSACTION_TYPE_VOTE"
    and vs: "Asset.votes (Transaction.asset tx) = Some vs"
    and up: "signedVotes CHR ''+'' g vs = [d1]"
    and down: "signedVotes CHR ''-'' g vs = [d2]"
    and s: "accounts st (Transaction.senderId tx) = Some s"
  shows "settled (outcome (serial 2) st (callbacksOf (applyNewVote g st tx)))"
    and "settled (outcome (serial 2) st (callbacksOf (undoNewVote g st tx)))"
proof -
  have "length (callbacksOf (applyNewVote g st tx)) = 2"
    "length (callbacksOf (undoNewVote g st tx)) = 2"
    using newVote_started [OF ty vs up down s] by (simp_all add: callbacksOf_def)
  then show "settled (outcome (serial 2) st (callbacksOf (applyNewVote g st tx)))"
    "settled (outcome (serial 2) st (callbacksOf (undoNewVote g st tx)))"
    using outcome_serial_settles [of "callbacksOf (applyNewVote g st tx)" st]
      outcome_serial_settles [of "callbacksOf (undoNewVote g st tx)" st]
    by simp_all
qed

text \<open>
  The whole of \<^verbatim>\<open>applyVote\<close> and \<^verbatim>\<open>undoVote\<close> on such a transaction: the callbacks of the
  fee effect, one for each delegate the sender currently votes for, then the two of the
  new-vote effect.
\<close>

lemma vote_started:
  assumes ty: "Transaction.type tx = TRANSACTION_TYPE_VOTE"
    and vs: "Asset.votes (Transaction.asset tx) = Some vs"
    and up: "signedVotes CHR ''+'' g vs = [d1]"
    and down: "signedVotes CHR ''-'' g vs = [d2]"
    and s: "accounts st (Transaction.senderId tx) = Some s"
  shows "applyVote g st tx =
           \<lparr> rejections = [],
             started = callbacksOf (applyFee g st tx) @ callbacksOf (applyNewVote g st tx) \<rparr>"
    and "undoVote g st tx =
           \<lparr> rejections = [],
             started = callbacksOf (undoFee g st tx) @ callbacksOf (undoNewVote g st tx) \<rparr>"
    and "callbacksOf (applyFee g st tx) =
           forEach (\<lambda>w. Inr (w - Transaction.fee tx)) (delegateAddresses g s)"
    and "callbacksOf (undoFee g st tx) =
           forEach (\<lambda>w. Inr (w + Transaction.fee tx)) (delegateAddresses g s)"
proof -
  have nt: "Transaction.type tx \<notin>
      set [TRANSACTION_TYPE_TRANSFER, TRANSACTION_TYPE_IN_TRANSFER, TRANSACTION_TYPE_OUT_TRANSFER]"
    using ty by (simp add: TRANSACTION_TYPE_VOTE_def TRANSACTION_TYPE_TRANSFER_def
        TRANSACTION_TYPE_IN_TRANSFER_def TRANSACTION_TYPE_OUT_TRANSFER_def)
  have am: "applyAmount g st tx = Inr []" "undoAmount g st tx = Inr []"
    using nt by (simp_all add: applyAmount_def undoAmount_def)
  have fe: "applyFee g st tx =
        Inr (forEach (\<lambda>w. Inr (w - Transaction.fee tx)) (delegateAddresses g s))"
      "undoFee g st tx =
        Inr (forEach (\<lambda>w. Inr (w + Transaction.fee tx)) (delegateAddresses g s))"
    using s by (simp_all add: applyFee_def undoFee_def get_ADDRESS_ACCOUNT_def)
  note nv = newVote_started [OF ty vs up down s]
  show "applyVote g st tx =
           \<lparr> rejections = [],
             started = callbacksOf (applyFee g st tx) @ callbacksOf (applyNewVote g st tx) \<rparr>"
    by (simp add: applyVote_def am fe nv callbacksOf_def)
  show "undoVote g st tx =
           \<lparr> rejections = [],
             started = callbacksOf (undoFee g st tx) @ callbacksOf (undoNewVote g st tx) \<rparr>"
    by (simp add: undoVote_def am fe nv callbacksOf_def)
  show "callbacksOf (applyFee g st tx) =
           forEach (\<lambda>w. Inr (w - Transaction.fee tx)) (delegateAddresses g s)"
    "callbacksOf (undoFee g st tx) =
           forEach (\<lambda>w. Inr (w + Transaction.fee tx)) (delegateAddresses g s)"
    by (simp_all add: fe callbacksOf_def)
qed

lemma alone_between:
  assumes m: "map target cbs = xs @ x # ys" and x: "x \<notin> set xs" "x \<notin> set ys"
  shows "alone cbs (length xs)" "target (cbs ! length xs) = x"
proof -
  have len: "length cbs = length xs + Suc (length ys)"
    using m by (metis length_map length_append length_Cons)
  have tg: "target (cbs ! j) = (xs @ x # ys) ! j" if "j < length cbs" for j
    using m that by (metis nth_map)
  show t: "target (cbs ! length xs) = x"
    using tg [of "length xs"] len by simp
  have "target (cbs ! j) \<noteq> x" if j: "j < length cbs" "j \<noteq> length xs" for j
  proof (cases "j < length xs")
    case True
    then have "target (cbs ! j) = xs ! j"
      using tg [OF j(1)] by (simp add: nth_append)
    then show ?thesis
      using x(1) True by (metis nth_mem)
  next
    case False
    then have gt: "length xs < j"
      using j(2) by simp
    then have "target (cbs ! j) = ys ! (j - Suc (length xs))"
      using tg [OF j(1)] by (simp add: nth_append)
    moreover have "j - Suc (length xs) < length ys"
      using j(1) gt len by simp
    ultimately show ?thesis
      using x(2) by (metis nth_mem)
  qed
  then show "alone cbs (length xs)"
    using len t by (simp add: alone_def)
qed

text \<open>
  The two callbacks of the new-vote effect inside a whole call, when the sender currently
  votes for neither \<open>d1\<close> nor \<open>d2\<close>: no callback of the fee effect shares their targets, so
  they change both weights as they do by themselves, under every schedule. \<open>f0\<close>, \<open>f1\<close>
  and \<open>f2\<close> are the three changes.
\<close>

lemma vote_changes:
  assumes cbs: "cbs = forEach f0 as @
        [\<lparr> target = d1, change = f1, phase = Pending \<rparr>,
         \<lparr> target = d2, change = f2, phase = Pending \<rparr>]"
    and n1: "d1 \<notin> set as" and n2: "d2 \<notin> set as" and ne: "d1 \<noteq> d2"
    and w1: "weight st d1 = Inr w1" and w2: "weight st d2 = Inr w2"
    and e1: "f1 w1 = Inr w1'" and e2: "f2 w2 = Inr w2'"
    and a: "settled (outcome sch st cbs)"
  shows "weight (current (outcome sch st cbs)) d1 = Inr w1'"
    and "weight (current (outcome sch st cbs)) d2 = Inr w2'"
proof -
  have p: "\<forall>cb \<in> set cbs. phase cb = Pending"
    by (auto simp: cbs forEach_def)
  have m1: "map target cbs = as @ d1 # [d2]"
    by (simp add: cbs)
  have m2: "map target cbs = (as @ [d1]) @ d2 # []"
    by (simp add: cbs)
  have a1: "alone cbs (length as)" "target (cbs ! length as) = d1"
    using alone_between [OF m1] n1 ne by simp_all
  have a2: "alone cbs (length (as @ [d1]))" "target (cbs ! length (as @ [d1])) = d2"
    using alone_between [OF m2] n2 ne by simp_all
  have c1: "change (cbs ! length as) = f1"
    by (simp add: cbs nth_append)
  have c2: "change (cbs ! length (as @ [d1])) = f2"
    by (simp add: cbs nth_append)
  show "weight (current (outcome sch st cbs)) d1 = Inr w1'"
    by (rule alone_weight [OF p a1(1) a a1(2) c1 w1 e1])
  show "weight (current (outcome sch st cbs)) d2 = Inr w2'"
    by (rule alone_weight [OF p a2(1) a a2(2) c2 w2 e2])
qed

text \<open>
  C4 (as amended): for a vote transaction with one upvote (delegate \<open>d1\<close>) and one
  downvote (another delegate \<open>d2\<close>) and a sender with balance \<open>b\<close>, whatever the sender
  currently votes for. \<^verbatim>\<open>applyVote\<close> is not rejected and starts the callbacks of the fee
  effect and then those of the new-vote effect. Under every schedule that runs them to their
  end, the callbacks of the new-vote effect change the weight of \<open>d1\<close> by \<open>+ b\<close> and the
  weight of \<open>d2\<close> by \<open>fee - b\<close>, those of \<^verbatim>\<open>undoNewVote\<close> change them by \<open>- b\<close> and by
  \<open>b - fee\<close>, and after the first the second gives both weights back. When the sender
  currently votes for neither \<open>d1\<close> nor \<open>d2\<close>, these are the changes of the whole of
  \<^verbatim>\<open>applyVote\<close>, and \<^verbatim>\<open>undoVote\<close> on the resulting store gives both weights back. The
  serial schedule is one that runs the callbacks to their end.
\<close>

theorem vote_netting:
  assumes ty: "Transaction.type tx = TRANSACTION_TYPE_VOTE"
    and vs: "Asset.votes (Transaction.asset tx) = Some vs"
    and up: "signedVotes CHR ''+'' g vs = [d1]"
    and down: "signedVotes CHR ''-'' g vs = [d2]"
    and s: "accounts st (Transaction.senderId tx) = Some s"
    and b: "BigNum_new (balance s) = Inr b"
    and ne: "d1 \<noteq> d2"
    and w1: "weight st d1 = Inr w1"
    and w2: "weight st d2 = Inr w2"
  shows "rejections (applyVote g st tx) = []
     \<and> started (applyVote g st tx) =
         callbacksOf (applyFee g st tx) @ callbacksOf (applyNewVote g st tx)
     \<and> settled (outcome (serial 2) st (callbacksOf (applyNewVote g st tx)))
     \<and> (settled (outcome schN st (callbacksOf (applyNewVote g st tx))) \<longrightarrow>
          weight (afterApplyNewVote schN g st tx) d1 = Inr (w1 + b)
          \<and> weight (afterApplyNewVote schN g st tx) d2 = Inr (w2 + (Transaction.fee tx - b))
          \<and> settled (outcome (serial 2) (afterApplyNewVote schN g st tx)
                       (callbacksOf (undoNewVote g (afterApplyNewVote schN g st tx) tx)))
          \<and> (settled (outcome schM (afterApplyNewVote schN g st tx)
                        (callbacksOf (undoNewVote g (afterApplyNewVote schN g st tx) tx))) \<longrightarrow>
               weight (afterUndoNewVote schM g (afterApplyNewVote schN g st tx) tx) d1 = Inr w1
               \<and> weight (afterUndoNewVote schM g (afterApplyNewVote schN g st tx) tx) d2 = Inr w2))
     \<and> (settled (outcome schU st (callbacksOf (undoNewVote g st tx))) \<longrightarrow>
          weight (afterUndoNewVote schU g st tx) d1 = Inr (w1 - b)
          \<and> weight (afterUndoNewVote schU g st tx) d2 = Inr (w2 + (b - Transaction.fee tx)))
     \<and> (d1 \<notin> set (delegateAddresses g s) \<and> d2 \<notin> set (delegateAddresses g s) \<longrightarrow>
          settled (outcome (serial (length (delegateAddresses g s) + 2)) st
                    (started (applyVote g st tx)))
          \<and> (settled (outcome schV st (started (applyVote g st tx))) \<longrightarrow>
               weight (afterApplyVote schV g st tx) d1 = Inr (w1 + b)
               \<and> weight (afterApplyVote schV g st tx) d2 = Inr (w2 + (Transaction.fee tx - b))
               \<and> rejections (undoVote g (afterApplyVote schV g st tx) tx) = []
               \<and> settled (outcome (serial (length (delegateAddresses g s) + 2))
                            (afterApplyVote schV g st tx)
                            (started (undoVote g (afterApplyVote schV g st tx) tx)))
               \<and> (settled (outcome schR (afterApplyVote schV g st tx)
                             (started (undoVote g (afterApplyVote schV g st tx) tx))) \<longrightarrow>
                    weight (afterUndoVote schR g (afterApplyVote schV g st tx) tx) d1 = Inr w1
                    \<and> weight (afterUndoVote schR g (afterApplyVote schV g st tx) tx) d2
                          = Inr w2)))"
proof -
  let ?F = "Transaction.fee tx"
  let ?as = "delegateAddresses g s"
  note vst = vote_started [OF ty vs up down s]
  have 1: "rejections (applyVote g st tx) = []"
    and 2: "started (applyVote g st tx) =
         callbacksOf (applyFee g st tx) @ callbacksOf (applyNewVote g st tx)"
    by (simp_all add: vst(1))
  have 3: "settled (outcome (serial 2) st (callbacksOf (applyNewVote g st tx)))"
    by (rule newVote_settles(1) [OF ty vs up down s])
  have 4: "weight (afterApplyNewVote schN g st tx) d1 = Inr (w1 + b)
          \<and> weight (afterApplyNewVote schN g st tx) d2 = Inr (w2 + (?F - b))
          \<and> settled (outcome (serial 2) (afterApplyNewVote schN g st tx)
                       (callbacksOf (undoNewVote g (afterApplyNewVote schN g st tx) tx)))
          \<and> (settled (outcome schM (afterApplyNewVote schN g st tx)
                        (callbacksOf (undoNewVote g (afterApplyNewVote schN g st tx) tx))) \<longrightarrow>
               weight (afterUndoNewVote schM g (afterApplyNewVote schN g st tx) tx) d1 = Inr w1
               \<and> weight (afterUndoNewVote schM g (afterApplyNewVote schN g st tx) tx) d2 = Inr w2)"
    if a: "settled (outcome schN st (callbacksOf (applyNewVote g st tx)))"
  proof -
    let ?st = "afterApplyNewVote schN g st tx"
    note ch = applyNewVote_changes [OF ty vs up down s b ne w1 w2 a]
    then obtain s' where s': "accounts ?st (Transaction.senderId tx) = Some s'"
        "balance s' = balance s"
      by blast
    have b': "BigNum_new (balance s') = Inr b"
      using b s'(2) by simp
    have r1: "weight ?st d1 = Inr (w1 + b)" and r2: "weight ?st d2 = Inr (w2 + (?F - b))"
      using ch by simp_all
    have "weight (afterUndoNewVote schM g ?st tx) d1 = Inr w1
        \<and> weight (afterUndoNewVote schM g ?st tx) d2 = Inr w2"
      if u: "settled (outcome schM ?st (callbacksOf (undoNewVote g ?st tx)))"
      using undoNewVote_changes [OF ty vs up down s'(1) b' ne r1 r2 u] by simp
    then show ?thesis
      using r1 r2 newVote_settles(2) [OF ty vs up down s'(1)] by blast
  qed
  have 5: "weight (afterUndoNewVote schU g st tx) d1 = Inr (w1 - b)
          \<and> weight (afterUndoNewVote schU g st tx) d2 = Inr (w2 + (b - ?F))"
    if u: "settled (outcome schU st (callbacksOf (undoNewVote g st tx)))"
    by (rule undoNewVote_changes [OF ty vs up down s b ne w1 w2 u])
  have 6: "settled (outcome (serial (length ?as + 2)) st (started (applyVote g st tx)))
          \<and> (settled (outcome schV st (started (applyVote g st tx))) \<longrightarrow>
               weight (afterApplyVote schV g st tx) d1 = Inr (w1 + b)
               \<and> weight (afterApplyVote schV g st tx) d2 = Inr (w2 + (?F - b))
               \<and> rejections (undoVote g (afterApplyVote schV g st tx) tx) = []
               \<and> settled (outcome (serial (length ?as + 2)) (afterApplyVote schV g st tx)
                            (started (undoVote g (afterApplyVote schV g st tx) tx)))
               \<and> (settled (outcome schR (afterApplyVote schV g st tx)
                             (started (undoVote g (afterApplyVote schV g st tx) tx))) \<longrightarrow>
                    weight (afterUndoVote schR g (afterApplyVote schV g st tx) tx) d1 = Inr w1
                    \<and> weight (afterUndoVote schR g (afterApplyVote schV g st tx) tx) d2
                          = Inr w2))"
    if n: "d1 \<notin> set ?as" "d2 \<notin> set ?as"
  proof -
    define f1 where "f1 = (\<lambda>w. addString w (balance s))"
    define f2 where "f2 = (\<lambda>w. case subString w (balance s) of
                                  Inl err \<Rightarrow> Inl err | Inr w' \<Rightarrow> Inr (w' + ?F))"
    define cbs where "cbs = forEach (\<lambda>w. Inr (w - ?F)) ?as @
        [\<lparr> target = d1, change = f1, phase = Pending \<rparr>,
         \<lparr> target = d2, change = f2, phase = Pending \<rparr>]"
    have nv: "callbacksOf (applyNewVote g st tx) =
        [\<lparr> target = d1, change = f1, phase = Pending \<rparr>,
         \<lparr> target = d2, change = f2, phase = Pending \<rparr>]"
      by (simp add: newVote_started(1) [OF ty vs up down s] callbacksOf_def f1_def f2_def)
    have st: "started (applyVote g st tx) = cbs"
      by (simp add: vst(1,3) nv cbs_def)
    have p: "\<forall>cb \<in> set cbs. phase cb = Pending"
      by (auto simp: cbs_def forEach_def)
    have e1: "f1 w1 = Inr (w1 + b)" and e2: "f2 w2 = Inr (w2 + (?F - b))"
      using b by (simp_all add: f1_def f2_def addString_Inr subString_Inr)
    have len: "length cbs = length ?as + 2"
      by (simp add: cbs_def)
    have A: "settled (outcome (serial (length ?as + 2)) st (started (applyVote g st tx)))"
      unfolding st using outcome_serial_settles [of cbs st] by (simp only: len)
    have B: "weight (afterApplyVote schV g st tx) d1 = Inr (w1 + b)
               \<and> weight (afterApplyVote schV g st tx) d2 = Inr (w2 + (?F - b))
               \<and> rejections (undoVote g (afterApplyVote schV g st tx) tx) = []
               \<and> settled (outcome (serial (length ?as + 2)) (afterApplyVote schV g st tx)
                            (started (undoVote g (afterApplyVote schV g st tx) tx)))
               \<and> (settled (outcome schR (afterApplyVote schV g st tx)
                             (started (undoVote g (afterApplyVote schV g st tx) tx))) \<longrightarrow>
                    weight (afterUndoVote schR g (afterApplyVote schV g st tx) tx) d1 = Inr w1
                    \<and> weight (afterUndoVote schR g (afterApplyVote schV g st tx) tx) d2
                          = Inr w2)"
      if a: "settled (outcome schV st (started (applyVote g st tx)))"
    proof -
      let ?st = "afterApplyVote schV g st tx"
      have a': "settled (outcome schV st cbs)"
        using a by (simp add: st)
      have st': "?st = current (outcome schV st cbs)"
        by (simp add: afterApplyVote_def st)
      have r1: "weight ?st d1 = Inr (w1 + b)"
        unfolding st' by (rule vote_changes(1) [OF cbs_def n ne w1 w2 e1 e2 a'])
      have r2: "weight ?st d2 = Inr (w2 + (?F - b))"
        unfolding st' by (rule vote_changes(2) [OF cbs_def n ne w1 w2 e1 e2 a'])
      obtain s' where s': "accounts ?st (Transaction.senderId tx) = Some s'"
          "balance s' = balance s" "votedDelegatesPublicKeys s' = votedDelegatesPublicKeys s"
        using kept_outcome [OF p s, of schV] st' by auto
      have as': "delegateAddresses g s' = ?as"
        using s'(3) by (simp add: delegateAddresses_def)
      note ust = vote_started [OF ty vs up down s'(1)]
      define f1' where "f1' = (\<lambda>w. subString w (balance s))"
      define f2' where "f2' = (\<lambda>w. case addString w (balance s) of
                                  Inl err \<Rightarrow> Inl err | Inr w' \<Rightarrow> Inr (w' - ?F))"
      define cbs' where "cbs' = forEach (\<lambda>w. Inr (w + ?F)) ?as @
          [\<lparr> target = d1, change = f1', phase = Pending \<rparr>,
           \<lparr> target = d2, change = f2', phase = Pending \<rparr>]"
      have nv': "callbacksOf (undoNewVote g ?st tx) =
          [\<lparr> target = d1, change = f1', phase = Pending \<rparr>,
           \<lparr> target = d2, change = f2', phase = Pending \<rparr>]"
        by (simp add: newVote_started(2) [OF ty vs up down s'(1)] callbacksOf_def f1'_def
            f2'_def s'(2))
      have ust': "started (undoVote g ?st tx) = cbs'"
        by (simp add: ust(2,4) nv' cbs'_def as')
      have v1: "f1' (w1 + b) = Inr w1" and v2: "f2' (w2 + (?F - b)) = Inr w2"
        using b by (simp_all add: f1'_def f2'_def addString_Inr subString_Inr)
      have len': "length cbs' = length ?as + 2"
        by (simp add: cbs'_def)
      have C: "settled (outcome (serial (length ?as + 2)) ?st (started (undoVote g ?st tx)))"
        unfolding ust' using outcome_serial_settles [of cbs' ?st] by (simp only: len')
      have D: "weight (afterUndoVote schR g ?st tx) d1 = Inr w1
          \<and> weight (afterUndoVote schR g ?st tx) d2 = Inr w2"
        if u: "settled (outcome schR ?st (started (undoVote g ?st tx)))"
      proof -
        have u': "settled (outcome schR ?st cbs')"
          using u by (simp add: ust')
        have st'': "afterUndoVote schR g ?st tx = current (outcome schR ?st cbs')"
          by (simp add: afterUndoVote_def ust')
        show ?thesis
          unfolding st''
          using vote_changes [OF cbs'_def n ne r1 r2 v1 v2 u'] by simp
      qed
      have "rejections (undoVote g ?st tx) = []"
        by (simp add: ust(2))
      then show ?thesis
        using r1 r2 C D by blast
    qed
    show ?thesis
      using A B by blast
  qed
  show ?thesis
    using 1 2 3 4 5 6 by blast
qed

theorem vote_netting_witness:
  "Transaction.type exampleVote = TRANSACTION_TYPE_VOTE
   \<and> Asset.votes (Transaction.asset exampleVote) = Some [''+d1'', ''-d2'']
   \<and> signedVotes CHR ''+'' exampleAddress [''+d1'', ''-d2''] = [''d1L'']
   \<and> signedVotes CHR ''-'' exampleAddress [''+d1'', ''-d2''] = [''d2L'']
   \<and> Transaction.fee exampleVote = 10
   \<and> accounts (exampleStore overlappingVoter) (Transaction.senderId exampleVote)
        = Some overlappingVoter
   \<and> BigNum_new (balance overlappingVoter) = Inr 1000
   \<and> delegateAddresses exampleAddress overlappingVoter = [''d2L'']
   \<and> weight (exampleStore overlappingVoter) ''d1L'' = Inr 2000
   \<and> weight (exampleStore overlappingVoter) ''d2L'' = Inr 5000
   \<and> weight (afterApplyNewVote (serial 2) exampleAddress (exampleStore overlappingVoter)
               exampleVote) ''d1L'' = Inr 3000
   \<and> weight (afterApplyNewVote (serial 2) exampleAddress (exampleStore overlappingVoter)
               exampleVote) ''d2L'' = Inr 4010
   \<and> weight (afterUndoNewVote (serial 2) exampleAddress
               (afterApplyNewVote (serial 2) exampleAddress (exampleStore overlappingVoter)
                  exampleVote)
               exampleVote) ''d1L'' = Inr 2000
   \<and> weight (afterUndoNewVote (serial 2) exampleAddress
               (afterApplyNewVote (serial 2) exampleAddress (exampleStore overlappingVoter)
                  exampleVote)
               exampleVote) ''d2L'' = Inr 5000
   \<and> accounts (exampleStore exampleVoter) (Transaction.senderId exampleVote) = Some exampleVoter
   \<and> BigNum_new (balance exampleVoter) = Inr 1000
   \<and> delegateAddresses exampleAddress exampleVoter = [''d3L'']
   \<and> weight (exampleStore exampleVoter) ''d1L'' = Inr 2000
   \<and> weight (exampleStore exampleVoter) ''d2L'' = Inr 5000
   \<and> weight (afterApplyVote (serial 3) exampleAddress (exampleStore exampleVoter) exampleVote)
        ''d1L'' = Inr 3000
   \<and> weight (afterApplyVote (serial 3) exampleAddress (exampleStore exampleVoter) exampleVote)
        ''d2L'' = Inr 4010
   \<and> weight (afterUndoVote (serial 3) exampleAddress
               (afterApplyVote (serial 3) exampleAddress (exampleStore exampleVoter) exampleVote)
               exampleVote) ''d1L'' = Inr 2000
   \<and> weight (afterUndoVote (serial 3) exampleAddress
               (afterApplyVote (serial 3) exampleAddress (exampleStore exampleVoter) exampleVote)
               exampleVote) ''d2L'' = Inr 5000"
proof -
  let ?g = "exampleAddress"
  let ?o = "exampleStore overlappingVoter"
  let ?e = "exampleStore exampleVoter"
  have ty: "Transaction.type exampleVote = TRANSACTION_TYPE_VOTE"
    by (simp add: exampleVote_def TRANSACTION_TYPE_VOTE_def)
  have vs: "Asset.votes (Transaction.asset exampleVote) = Some [''+d1'', ''-d2'']"
    by (simp add: exampleVote_def)
  have up: "signedVotes CHR ''+'' ?g [''+d1'', ''-d2''] = [''d1L'']"
    and down: "signedVotes CHR ''-'' ?g [''+d1'', ''-d2''] = [''d2L'']"
    by (simp_all add: signedVotes_def exampleAddress_def)
  have f: "Transaction.fee exampleVote = 10"
    by (simp add: exampleVote_def)
  have ne: "''d1L'' \<noteq> ''d2L''"
    by simp
  have so: "accounts ?o (Transaction.senderId exampleVote) = Some overlappingVoter"
    and se: "accounts ?e (Transaction.senderId exampleVote) = Some exampleVoter"
    by (simp_all add: exampleStore_def exampleVote_def)
  have bo: "BigNum_new (balance overlappingVoter) = Inr 1000"
    and be: "BigNum_new (balance exampleVoter) = Inr 1000"
    by (simp_all add: overlappingVoter_def exampleVoter_def example_numbers)
  have ao: "delegateAddresses ?g overlappingVoter = [''d2L'']"
    and ae: "delegateAddresses ?g exampleVoter = [''d3L'']"
    by (simp_all add: delegateAddresses_def overlappingVoter_def exampleVoter_def
        exampleAddress_def)
  note o1 = example_weights(1) [of overlappingVoter]
  note o2 = example_weights(2) [of overlappingVoter]
  note e1 = example_weights(1) [of exampleVoter]
  note e2 = example_weights(2) [of exampleVoter]
  note t = vote_netting [OF ty vs up down so bo ne o1 o2,
      where schN = "serial 2" and schM = "serial 2"]
  from t have n1: "settled (outcome (serial 2) ?o (callbacksOf (applyNewVote ?g ?o exampleVote)))"
    by blast
  with t have n2: "weight (afterApplyNewVote (serial 2) ?g ?o exampleVote) ''d1L'' = Inr (2000 + 1000)"
      "weight (afterApplyNewVote (serial 2) ?g ?o exampleVote) ''d2L''
         = Inr (5000 + (Transaction.fee exampleVote - 1000))"
      "settled (outcome (serial 2) (afterApplyNewVote (serial 2) ?g ?o exampleVote)
                 (callbacksOf (undoNewVote ?g (afterApplyNewVote (serial 2) ?g ?o exampleVote)
                                 exampleVote)))"
    by blast+
  with t n1 have n3:
      "weight (afterUndoNewVote (serial 2) ?g (afterApplyNewVote (serial 2) ?g ?o exampleVote)
                exampleVote) ''d1L'' = Inr 2000"
      "weight (afterUndoNewVote (serial 2) ?g (afterApplyNewVote (serial 2) ?g ?o exampleVote)
                exampleVote) ''d2L'' = Inr 5000"
    by blast+
  have na: "''d1L'' \<notin> set (delegateAddresses ?g exampleVoter)
      \<and> ''d2L'' \<notin> set (delegateAddresses ?g exampleVoter)"
    by (simp add: ae)
  have l3: "length (delegateAddresses ?g exampleVoter) + 2 = 3"
    by (simp add: ae)
  note v = vote_netting [OF ty vs up down se be ne e1 e2,
      where schV = "serial 3" and schR = "serial 3", unfolded l3]
  from v na have v1: "settled (outcome (serial 3) ?e (started (applyVote ?g ?e exampleVote)))"
    by blast
  with v na have v2: "weight (afterApplyVote (serial 3) ?g ?e exampleVote) ''d1L'' = Inr (2000 + 1000)"
      "weight (afterApplyVote (serial 3) ?g ?e exampleVote) ''d2L''
         = Inr (5000 + (Transaction.fee exampleVote - 1000))"
      "settled (outcome (serial 3) (afterApplyVote (serial 3) ?g ?e exampleVote)
                 (started (undoVote ?g (afterApplyVote (serial 3) ?g ?e exampleVote) exampleVote)))"
    by blast+
  with v na v1 have v3:
      "weight (afterUndoVote (serial 3) ?g (afterApplyVote (serial 3) ?g ?e exampleVote)
                exampleVote) ''d1L'' = Inr 2000"
      "weight (afterUndoVote (serial 3) ?g (afterApplyVote (serial 3) ?g ?e exampleVote)
                exampleVote) ''d2L'' = Inr 5000"
    by blast+
  have r: "(2000::int) + 1000 = 3000" "(5000::int) + (10 - 1000) = 4010"
    by simp_all
  show ?thesis
    using ty vs up down f so bo ao o1 o2 n2(1,2) n3 se be ae e1 e2 v2(1,2) v3
    unfolding f r by blast
qed

subsection \<open>C5: the amount effect of an in-transfer\<close>

text \<open>
  C5: for an in-transfer whose \<^verbatim>\<open>dappId\<close> names a transaction of the store, sent by an
  account \<open>r\<close> of the store whose voted delegates are different accounts, and every
  schedule under which the callbacks run to their end: the callbacks of \<^verbatim>\<open>applyAmount\<close> and
  of \<^verbatim>\<open>undoAmount\<close> target exactly the delegates \<open>r\<close> votes for; the weight of each of them
  changes by \<open>+ amount\<close> on apply and by \<open>- amount\<close> on undo; every other account is
  unchanged; and the nominal \<^verbatim>\<open>recipientId\<close> of the transaction has no influence.
\<close>

theorem amount_effect_inTransfer:
  assumes ty: "Transaction.type tx = TRANSACTION_TYPE_IN_TRANSFER"
    and it: "inTransfer (Transaction.asset tx) = Some t"
    and dt: "transactions st (dappId t) = Some dappTx"
    and r: "accounts st (Transaction.senderId dappTx) = Some r"
    and d: "distinct (delegateAddresses g r)"
    and a: "settled (outcome schA st (callbacksOf (applyAmount g st tx)))"
    and u: "settled (outcome schU st (callbacksOf (undoAmount g st tx)))"
  shows "applyAmount g st tx = Inr (callbacksOf (applyAmount g st tx))
     \<and> undoAmount g st tx = Inr (callbacksOf (undoAmount g st tx))
     \<and> map target (callbacksOf (applyAmount g st tx)) = delegateAddresses g r
     \<and> map target (callbacksOf (undoAmount g st tx)) = delegateAddresses g r
     \<and> (x \<in> set (delegateAddresses g r) \<longrightarrow> weight st x = Inr w \<longrightarrow>
          weight (current (outcome schA st (callbacksOf (applyAmount g st tx)))) x
            = Inr (w + Transaction.amount tx)
          \<and> weight (current (outcome schU st (callbacksOf (undoAmount g st tx)))) x
            = Inr (w - Transaction.amount tx))
     \<and> (x \<notin> set (delegateAddresses g r) \<longrightarrow>
          accounts (current (outcome schA st (callbacksOf (applyAmount g st tx)))) x = accounts st x
          \<and> accounts (current (outcome schU st (callbacksOf (undoAmount g st tx)))) x = accounts st x)
     \<and> applyAmount g st (tx\<lparr>Transaction.recipientId := nominal\<rparr>) = applyAmount g st tx
     \<and> undoAmount g st (tx\<lparr>Transaction.recipientId := nominal\<rparr>) = undoAmount g st tx
     \<and> settled (outcome (serial (length (callbacksOf (applyAmount g st tx)))) st
                  (callbacksOf (applyAmount g st tx)))
     \<and> settled (outcome (serial (length (callbacksOf (undoAmount g st tx)))) st
                  (callbacksOf (undoAmount g st tx)))"
proof -
  let ?as = "delegateAddresses g r"
  have ca: "applyAmount g st tx' = Inr (forEach (\<lambda>w. Inr (w + Transaction.amount tx)) ?as)"
    if "tx' = tx \<or> tx' = tx\<lparr>Transaction.recipientId := nominal\<rparr>" for tx'
    using that ty it dt r
    by (auto simp: applyAmount_def get_ADDRESS_ACCOUNT_def get_TX_ID_TX_def)
  have cu: "undoAmount g st tx' = Inr (forEach (\<lambda>w. Inr (w - Transaction.amount tx)) ?as)"
    if "tx' = tx \<or> tx' = tx\<lparr>Transaction.recipientId := nominal\<rparr>" for tx'
    using that ty it dt r
    by (auto simp: undoAmount_def get_ADDRESS_ACCOUNT_def get_TX_ID_TX_def)
  have ca0: "applyAmount g st tx = Inr (forEach (\<lambda>w. Inr (w + Transaction.amount tx)) ?as)"
    by (rule ca) simp
  have cu0: "undoAmount g st tx = Inr (forEach (\<lambda>w. Inr (w - Transaction.amount tx)) ?as)"
    by (rule cu) simp
  have ca1: "applyAmount g st (tx\<lparr>Transaction.recipientId := nominal\<rparr>) = applyAmount g st tx"
    using ca [of "tx\<lparr>Transaction.recipientId := nominal\<rparr>"] ca0 by simp
  have cu1: "undoAmount g st (tx\<lparr>Transaction.recipientId := nominal\<rparr>) = undoAmount g st tx"
    using cu [of "tx\<lparr>Transaction.recipientId := nominal\<rparr>"] cu0 by simp
  note oa = forEach_outcome [OF d a [unfolded ca0 callbacksOf_def sum.case]]
  note ou = forEach_outcome [OF d u [unfolded cu0 callbacksOf_def sum.case]]
  have "applyAmount g st tx = Inr (callbacksOf (applyAmount g st tx))
     \<and> undoAmount g st tx = Inr (callbacksOf (undoAmount g st tx))
     \<and> map target (callbacksOf (applyAmount g st tx)) = delegateAddresses g r
     \<and> map target (callbacksOf (undoAmount g st tx)) = delegateAddresses g r
     \<and> (x \<in> set (delegateAddresses g r) \<longrightarrow> weight st x = Inr w \<longrightarrow>
          weight (current (outcome schA st (callbacksOf (applyAmount g st tx)))) x
            = Inr (w + Transaction.amount tx)
          \<and> weight (current (outcome schU st (callbacksOf (undoAmount g st tx)))) x
            = Inr (w - Transaction.amount tx))
     \<and> (x \<notin> set (delegateAddresses g r) \<longrightarrow>
          accounts (current (outcome schA st (callbacksOf (applyAmount g st tx)))) x = accounts st x
          \<and> accounts (current (outcome schU st (callbacksOf (undoAmount g st tx)))) x = accounts st x)"
    unfolding ca0 cu0 callbacksOf_def sum.case
    using oa ou by (auto intro: weight_after)
  then show ?thesis
    using ca1 cu1 outcome_serial_settles by blast
qed

theorem amount_effect_inTransfer_witness:
  "Transaction.type exampleInTransfer = TRANSACTION_TYPE_IN_TRANSFER
   \<and> inTransfer (Transaction.asset exampleInTransfer) = Some \<lparr> dappId = ''5'' \<rparr>
   \<and> transactions exampleDappStore ''5'' = Some exampleDapp
   \<and> Transaction.senderId exampleDapp = ''vL''
   \<and> Transaction.recipientId exampleInTransfer = Some ''d2L''
   \<and> accounts exampleDappStore ''vL'' = Some exampleVoter
   \<and> delegateAddresses exampleAddress exampleVoter = [''d3L'']
   \<and> weight exampleDappStore ''d3L'' = Inr 7000
   \<and> Transaction.amount exampleInTransfer = 500
   \<and> weight (current (outcome (serial 1) exampleDappStore
               (callbacksOf (applyAmount exampleAddress exampleDappStore exampleInTransfer))))
        ''d3L'' = Inr 7500
   \<and> weight (current (outcome (serial 1) exampleDappStore
               (callbacksOf (undoAmount exampleAddress exampleDappStore exampleInTransfer))))
        ''d3L'' = Inr 6500
   \<and> accounts (current (outcome (serial 1) exampleDappStore
               (callbacksOf (applyAmount exampleAddress exampleDappStore exampleInTransfer))))
        ''d2L'' = accounts exampleDappStore ''d2L''"
proof -
  let ?st = "exampleDappStore"
  let ?tx = "exampleInTransfer"
  have ty: "Transaction.type ?tx = TRANSACTION_TYPE_IN_TRANSFER"
    by (simp add: exampleInTransfer_def TRANSACTION_TYPE_IN_TRANSFER_def)
  have it: "inTransfer (Transaction.asset ?tx) = Some \<lparr> dappId = ''5'' \<rparr>"
    by (simp add: exampleInTransfer_def)
  have dt: "transactions ?st (dappId \<lparr> dappId = ''5'' \<rparr>) = Some exampleDapp"
    by (simp add: exampleDappStore_def)
  have sid: "Transaction.senderId exampleDapp = ''vL''"
    by (simp add: exampleDapp_def)
  have r: "accounts ?st (Transaction.senderId exampleDapp) = Some exampleVoter"
    by (simp add: exampleDappStore_def exampleStore_def sid)
  have as: "delegateAddresses exampleAddress exampleVoter = [''d3L'']"
    by (simp add: delegateAddresses_def exampleVoter_def exampleAddress_def)
  have d: "distinct (delegateAddresses exampleAddress exampleVoter)"
    by (simp add: as)
  have w: "weight ?st ''d3L'' = Inr 7000"
    using example_weights(3) [of exampleVoter]
    by (simp add: weight_def get_ADDRESS_ACCOUNT_def exampleDappStore_def)
  have la: "length (callbacksOf (applyAmount exampleAddress ?st ?tx)) = 1"
    using ty it dt r as
    by (simp add: applyAmount_def get_ADDRESS_ACCOUNT_def get_TX_ID_TX_def callbacksOf_def)
  have lu: "length (callbacksOf (undoAmount exampleAddress ?st ?tx)) = 1"
    using ty it dt r as
    by (simp add: undoAmount_def get_ADDRESS_ACCOUNT_def get_TX_ID_TX_def callbacksOf_def)
  have a: "settled (outcome (serial 1) ?st (callbacksOf (applyAmount exampleAddress ?st ?tx)))"
    using outcome_serial_settles [of "callbacksOf (applyAmount exampleAddress ?st ?tx)" ?st]
    by (simp only: la)
  have u: "settled (outcome (serial 1) ?st (callbacksOf (undoAmount exampleAddress ?st ?tx)))"
    using outcome_serial_settles [of "callbacksOf (undoAmount exampleAddress ?st ?tx)" ?st]
    by (simp only: lu)
  have am: "Transaction.amount ?tx = 500" "Transaction.recipientId ?tx = Some ''d2L''"
    by (simp_all add: exampleInTransfer_def)
  show ?thesis
    using amount_effect_inTransfer [OF ty it dt r d a u, of "''d3L''" 7000]
      amount_effect_inTransfer [OF ty it dt r d a u, of "''d2L''" 0]
      ty it dt sid r as w am
    by simp
qed

subsection \<open>C6: the fee effect\<close>

text \<open>
  C6: whatever the type of the transaction, for a sender of the store whose voted delegates
  are different accounts and every schedule under which the callbacks run to their end:
  \<^verbatim>\<open>applyFee\<close> subtracts the fee from the weight of every delegate the sender votes for,
  \<^verbatim>\<open>undoFee\<close> adds it, and the account of every other address is unchanged.
\<close>

theorem fee_effect:
  assumes s: "accounts st (Transaction.senderId tx) = Some s"
    and d: "distinct (delegateAddresses g s)"
    and a: "settled (outcome schA st (callbacksOf (applyFee g st tx)))"
    and u: "settled (outcome schU st (callbacksOf (undoFee g st tx)))"
  shows "applyFee g st tx = Inr (callbacksOf (applyFee g st tx))
     \<and> undoFee g st tx = Inr (callbacksOf (undoFee g st tx))
     \<and> map target (callbacksOf (applyFee g st tx)) = delegateAddresses g s
     \<and> map target (callbacksOf (undoFee g st tx)) = delegateAddresses g s
     \<and> (x \<in> set (delegateAddresses g s) \<longrightarrow> weight st x = Inr w \<longrightarrow>
          weight (current (outcome schA st (callbacksOf (applyFee g st tx)))) x
            = Inr (w - Transaction.fee tx)
          \<and> weight (current (outcome schU st (callbacksOf (undoFee g st tx)))) x
            = Inr (w + Transaction.fee tx))
     \<and> (x \<notin> set (delegateAddresses g s) \<longrightarrow>
          accounts (current (outcome schA st (callbacksOf (applyFee g st tx)))) x = accounts st x
          \<and> accounts (current (outcome schU st (callbacksOf (undoFee g st tx)))) x = accounts st x)
     \<and> settled (outcome (serial (length (callbacksOf (applyFee g st tx)))) st
                  (callbacksOf (applyFee g st tx)))
     \<and> settled (outcome (serial (length (callbacksOf (undoFee g st tx)))) st
                  (callbacksOf (undoFee g st tx)))"
proof -
  let ?as = "delegateAddresses g s"
  have ca: "applyFee g st tx = Inr (forEach (\<lambda>w. Inr (w - Transaction.fee tx)) ?as)"
    using s by (simp add: applyFee_def get_ADDRESS_ACCOUNT_def)
  have cu: "undoFee g st tx = Inr (forEach (\<lambda>w. Inr (w + Transaction.fee tx)) ?as)"
    using s by (simp add: undoFee_def get_ADDRESS_ACCOUNT_def)
  note oa = forEach_outcome [OF d a [unfolded ca callbacksOf_def sum.case]]
  note ou = forEach_outcome [OF d u [unfolded cu callbacksOf_def sum.case]]
  have "applyFee g st tx = Inr (callbacksOf (applyFee g st tx))
     \<and> undoFee g st tx = Inr (callbacksOf (undoFee g st tx))
     \<and> map target (callbacksOf (applyFee g st tx)) = delegateAddresses g s
     \<and> map target (callbacksOf (undoFee g st tx)) = delegateAddresses g s
     \<and> (x \<in> set (delegateAddresses g s) \<longrightarrow> weight st x = Inr w \<longrightarrow>
          weight (current (outcome schA st (callbacksOf (applyFee g st tx)))) x
            = Inr (w - Transaction.fee tx)
          \<and> weight (current (outcome schU st (callbacksOf (undoFee g st tx)))) x
            = Inr (w + Transaction.fee tx))
     \<and> (x \<notin> set (delegateAddresses g s) \<longrightarrow>
          accounts (current (outcome schA st (callbacksOf (applyFee g st tx)))) x = accounts st x
          \<and> accounts (current (outcome schU st (callbacksOf (undoFee g st tx)))) x = accounts st x)"
    unfolding ca cu callbacksOf_def sum.case
    using oa ou by (auto intro: weight_after)
  then show ?thesis
    using outcome_serial_settles by blast
qed

theorem fee_effect_witness:
  "accounts (exampleStore exampleVoter) (Transaction.senderId exampleVote) = Some exampleVoter
   \<and> delegateAddresses exampleAddress exampleVoter = [''d3L'']
   \<and> weight (exampleStore exampleVoter) ''d3L'' = Inr 7000
   \<and> Transaction.fee exampleVote = 10
   \<and> weight (current (outcome (serial 1) (exampleStore exampleVoter)
               (callbacksOf (applyFee exampleAddress (exampleStore exampleVoter) exampleVote))))
        ''d3L'' = Inr 6990
   \<and> weight (current (outcome (serial 1) (exampleStore exampleVoter)
               (callbacksOf (undoFee exampleAddress (exampleStore exampleVoter) exampleVote))))
        ''d3L'' = Inr 7010
   \<and> accounts (current (outcome (serial 1) (exampleStore exampleVoter)
               (callbacksOf (applyFee exampleAddress (exampleStore exampleVoter) exampleVote))))
        ''d1L'' = accounts (exampleStore exampleVoter) ''d1L''"
proof -
  let ?st = "exampleStore exampleVoter"
  have s: "accounts ?st (Transaction.senderId exampleVote) = Some exampleVoter"
    by (simp add: exampleStore_def exampleVote_def)
  have as: "delegateAddresses exampleAddress exampleVoter = [''d3L'']"
    by (simp add: delegateAddresses_def exampleVoter_def exampleAddress_def)
  have d: "distinct (delegateAddresses exampleAddress exampleVoter)"
    by (simp add: as)
  have la: "length (callbacksOf (applyFee exampleAddress ?st exampleVote)) = 1"
    using s as by (simp add: applyFee_def get_ADDRESS_ACCOUNT_def callbacksOf_def)
  have lu: "length (callbacksOf (undoFee exampleAddress ?st exampleVote)) = 1"
    using s as by (simp add: undoFee_def get_ADDRESS_ACCOUNT_def callbacksOf_def)
  have a: "settled (outcome (serial 1) ?st (callbacksOf (applyFee exampleAddress ?st exampleVote)))"
    using outcome_serial_settles [of "callbacksOf (applyFee exampleAddress ?st exampleVote)" ?st]
    by (simp only: la)
  have u: "settled (outcome (serial 1) ?st (callbacksOf (undoFee exampleAddress ?st exampleVote)))"
    using outcome_serial_settles [of "callbacksOf (undoFee exampleAddress ?st exampleVote)" ?st]
    by (simp only: lu)
  have f: "Transaction.fee exampleVote = 10"
    by (simp add: exampleVote_def)
  show ?thesis
    using fee_effect [OF s d a u, of "''d3L''" 7000] fee_effect [OF s d a u, of "''d1L''" 0]
      s as f example_weights(3) [of exampleVoter]
    by simp
qed

subsection \<open>C9: when the promise of applyVote resolves\<close>

text \<open>What the six effects start is pending, and what a call starts is what its effects start.\<close>

lemma effect_pending:
  "\<forall>cb \<in> set (callbacksOf (applyFee g st tx)). phase cb = Pending"
  "\<forall>cb \<in> set (callbacksOf (undoFee g st tx)). phase cb = Pending"
  "\<forall>cb \<in> set (callbacksOf (applyAmount g st tx)). phase cb = Pending"
  "\<forall>cb \<in> set (callbacksOf (undoAmount g st tx)). phase cb = Pending"
  "\<forall>cb \<in> set (callbacksOf (applyNewVote g st tx)). phase cb = Pending"
  "\<forall>cb \<in> set (callbacksOf (undoNewVote g st tx)). phase cb = Pending"
  by (auto simp: callbacksOf_def applyFee_def undoFee_def applyAmount_def undoAmount_def
      applyNewVote_def undoNewVote_def forEach_def Let_def
      split: sum.splits option.splits if_splits)

lemma startedBy_callbacksOf:
  "startedBy [a, b, c] = callbacksOf a @ callbacksOf b @ callbacksOf c"
  by (cases a; cases b; cases c) (simp_all add: callbacksOf_def)

lemma started_effects:
  "started (applyVote g st tx) =
     callbacksOf (applyFee g st tx) @ callbacksOf (applyAmount g st tx)
       @ callbacksOf (applyNewVote g st tx)"
  "started (undoVote g st tx) =
     callbacksOf (undoFee g st tx) @ callbacksOf (undoAmount g st tx)
       @ callbacksOf (undoNewVote g st tx)"
  by (simp_all add: applyVote_def undoVote_def startedBy_callbacksOf)

lemma started_pending:
  "\<forall>cb \<in> set (started (applyVote g st tx)). phase cb = Pending"
  "\<forall>cb \<in> set (started (undoVote g st tx)). phase cb = Pending"
  using effect_pending [of g st tx] by (auto simp: started_effects)

lemma pending_not_settled:
  assumes "\<forall>cb \<in> set cbs. phase cb = Pending" "cbs \<noteq> []"
  shows "\<not> settled (outcome [] st cbs)"
proof -
  obtain cb rest where "cbs = cb # rest"
    using assms(2) by (cases cbs) auto
  then show ?thesis
    using assms(1) by (simp add: settled_def outcome_def run_def finished_def)
qed

lemma unresumed_not_settled:
  "started (applyVote g st tx) \<noteq> [] \<Longrightarrow>
     \<not> settled (outcome [] st (started (applyVote g st tx)))"
  "started (undoVote g st tx) \<noteq> [] \<Longrightarrow>
     \<not> settled (outcome [] st (started (undoVote g st tx)))"
  using pending_not_settled [OF started_pending(1)] pending_not_settled [OF started_pending(2)]
  by blast+




subsection \<open>C8: candidate keys do not sort by weight\<close>

text \<open>
  C8: the key of the candidate index is the decimal weight, unpadded, a colon and the public
  key of the delegate. The weights 9 and 10 give keys in the opposite order: for every
  public key the key of weight 10 is below the key of weight 9 in the order of strings.
\<close>

theorem candidateKey_order:
  "(9::int) < 10
   \<and> candidateKey (BigNum_toString 9) pk = ''9:'' @ pk
   \<and> candidateKey (BigNum_toString 10) pk = ''10:'' @ pk
   \<and> candidateKey (BigNum_toString 10) pk < candidateKey (BigNum_toString 9) pk"
  by (simp add: candidateKey_def BigNum_toString_plain digitsOf.simps digitChar_values)

theorem candidateKey_order_witness:
  "candidateKey (BigNum_toString 10) ''ab'' < candidateKey (BigNum_toString 9) ''ab''"
  using candidateKey_order [of "''ab''"] by blast

end
